theory Spec2Isabelle
  imports Main "HOL-Library.Word"
begin

unbundle bit_operations_syntax

chapter \<open>direct\_bt: EIR decoder and GATT client engine\<close>

text \<open>
  A shallow embedding of \<^verbatim>\<open>BTTypes.cpp\<close> (EUI-48 addresses, the EIR/AD element
  iterator and \<^verbatim>\<open>EInfoReport::read_data\<close>) and of \<^verbatim>\<open>GATTHandler.cpp\<close> (MTU exchange,
  \<^verbatim>\<open>send\<close>, the discovery procedures, the long read and the indication path of the
  reader).  Octets are \<open>8 word\<close>, C++ \<^verbatim>\<open>int\<close> values are \<open>int\<close>: every \<^verbatim>\<open>int\<close> the
  embedded functions compute is bounded by a few multiples of an octet or of a PDU
  length, far below \<open>2 ^ 31\<close>.  Exceptions are values of \<open>error\<close>.
\<close>

section \<open>Basic types\<close>

type_synonym uint8_t = "8 word"
type_synonym uint16_t = "16 word"
type_synonym uint32_t = "32 word"
type_synonym uint64_t = "64 word"
type_synonym uint128_t = "128 word"
type_synonym octets = "uint8_t list"

datatype error =
    IllegalArgumentException
  | InvalidStateException
  | InternalError
  | IndexOutOfBoundsException
  | ArithmeticTrap

section \<open>Octet primitives\<close>

text \<open>
  The octets of a container that knows its size (the \<^verbatim>\<open>pdu\<close> of an ATT message) are a
  list, read at an \<open>int\<close> index; a read outside the list has no value, \<open>None\<close>, which the
  bounds-checked accessors turn into their exception.
\<close>

definition peek :: "octets \<Rightarrow> int \<Rightarrow> uint8_t option" where
  "peek data i = (if 0 \<le> i \<and> i < int (length data) then Some (data ! nat i) else None)"

definition peek_range :: "octets \<Rightarrow> int \<Rightarrow> int \<Rightarrow> octets option" where
  "peek_range data i n =
     (if n \<le> 0 then Some []
      else if 0 \<le> i \<and> i + n \<le> int (length data) then Some (take (nat n) (drop (nat i) data))
      else None)"

text \<open>
  Modelled from the spec: the fixed-endianness readers \<^verbatim>\<open>get_uint16\<close>, \<^verbatim>\<open>get_uint32\<close>
  and \<^verbatim>\<open>get_uint128\<close> over a borrowed byte slice (their header is not among the
  sources).  With \<open>littleEndian\<close> the octet at the lowest index is the least
  significant one.
\<close>

definition le_value :: "octets \<Rightarrow> nat" where
  "le_value bs = foldr (\<lambda>b acc. unat b + 256 * acc) bs 0"

definition get_uintN :: "int \<Rightarrow> octets \<Rightarrow> int \<Rightarrow> bool \<Rightarrow> nat option" where
  "get_uintN n buffer byte_offset littleEndian =
     (case peek_range buffer byte_offset n of
        None \<Rightarrow> None
      | Some bs \<Rightarrow> Some (le_value (if littleEndian then bs else rev bs)))"

definition get_uint16 :: "octets \<Rightarrow> int \<Rightarrow> bool \<Rightarrow> uint16_t option" where
  "get_uint16 buffer byte_offset littleEndian =
     map_option of_nat (get_uintN 2 buffer byte_offset littleEndian)"

definition get_uint32 :: "octets \<Rightarrow> int \<Rightarrow> bool \<Rightarrow> uint32_t option" where
  "get_uint32 buffer byte_offset littleEndian =
     map_option of_nat (get_uintN 4 buffer byte_offset littleEndian)"

definition get_uint128 :: "octets \<Rightarrow> int \<Rightarrow> bool \<Rightarrow> uint128_t option" where
  "get_uint128 buffer byte_offset littleEndian =
     map_option of_nat (get_uintN 16 buffer byte_offset littleEndian)"

text \<open>
  The EIR decoder is handed a raw \<^verbatim>\<open>uint8_t const * data\<close> and a length, and nothing in
  it keeps a read inside that length: \<^verbatim>\<open>data[i]\<close> is whatever the memory holds \<open>i\<close> octets
  after the pointer.  So the pointer is modelled by that memory, a total function
  from the index to the octet there, and \<open>memory_of buf beyond\<close> is the memory that holds
  the caller's buffer \<open>buf\<close> from index 0 on and the octets \<open>beyond\<close> around it.
\<close>

type_synonym memory = "int \<Rightarrow> uint8_t"

definition memory_of :: "octets \<Rightarrow> memory \<Rightarrow> memory" where
  "memory_of buf beyond i = (case peek buf i of Some b \<Rightarrow> b | None \<Rightarrow> beyond i)"

text \<open>The \<open>n\<close> octets at \<^verbatim>\<open>data + i\<close>.\<close>

definition octets_at :: "memory \<Rightarrow> int \<Rightarrow> int \<Rightarrow> octets" where
  "octets_at data i n = map (\<lambda>k. data (i + int k)) [0..<nat n]"

text \<open>
  Modelled from the spec: the same fixed-endianness readers as the decoder calls
  them, on a raw pointer and an offset.
\<close>

definition get_uintN_at :: "int \<Rightarrow> memory \<Rightarrow> int \<Rightarrow> bool \<Rightarrow> nat" where
  "get_uintN_at n buffer byte_offset littleEndian =
     (let bs = octets_at buffer byte_offset n
      in le_value (if littleEndian then bs else rev bs))"

definition get_uint16_at :: "memory \<Rightarrow> int \<Rightarrow> bool \<Rightarrow> uint16_t" where
  "get_uint16_at buffer byte_offset littleEndian =
     of_nat (get_uintN_at 2 buffer byte_offset littleEndian)"

definition get_uint32_at :: "memory \<Rightarrow> int \<Rightarrow> bool \<Rightarrow> uint32_t" where
  "get_uint32_at buffer byte_offset littleEndian =
     of_nat (get_uintN_at 4 buffer byte_offset littleEndian)"

definition get_uint128_at :: "memory \<Rightarrow> int \<Rightarrow> bool \<Rightarrow> uint128_t" where
  "get_uint128_at buffer byte_offset littleEndian =
     of_nat (get_uintN_at 16 buffer byte_offset littleEndian)"

section \<open>EUI-48 addresses\<close>

text \<open>The six octets \<^verbatim>\<open>b[0]\<close> .. \<^verbatim>\<open>b[5]\<close> of an \<^verbatim>\<open>EUI48\<close>, in this order.\<close>

datatype EUI48 = EUI48 uint8_t uint8_t uint8_t uint8_t uint8_t uint8_t

subsection \<open>The C library's formatted output, as far as \<^verbatim>\<open>toString\<close> uses it\<close>

definition hex_upper_digit :: "nat \<Rightarrow> char" where
  "hex_upper_digit d = ''0123456789ABCDEF'' ! d"

function hex_upper :: "nat \<Rightarrow> string" where
  "hex_upper n = (if n = 0 then [] else hex_upper (n div 16) @ [hex_upper_digit (n mod 16)])"
  by pat_completeness auto
termination
  by (relation "measure id") auto

declare hex_upper.simps [simp del]

text \<open>
  The conversion \<^verbatim>\<open>%2.2X\<close>: upper-case hexadecimal digits, padded with zeros to the
  precision 2, then with blanks to the field width 2.
\<close>

definition printf_2_2X :: "nat \<Rightarrow> string" where
  "printf_2_2X v =
     (let ds = hex_upper v;
          zs = replicate (2 - length ds) (CHR ''0'') @ ds
      in replicate (2 - length zs) (CHR '' '') @ zs)"

text \<open>
  \<^verbatim>\<open>EUI48::toString\<close>.  \<^verbatim>\<open>snprintf\<close> returns the length of the formatted text; the
  string's capacity (at least 18) is never exceeded by the 17 characters compared
  against.
\<close>

definition toString :: "EUI48 \<Rightarrow> error + string" where
  "toString a =
     (case a of EUI48 b0 b1 b2 b3 b4 b5 \<Rightarrow>
        let len = 17;
            str = printf_2_2X (unat b5) @ '':'' @ printf_2_2X (unat b4) @ '':'' @
                  printf_2_2X (unat b3) @ '':'' @ printf_2_2X (unat b2) @ '':'' @
                  printf_2_2X (unat b1) @ '':'' @ printf_2_2X (unat b0);
            count = int (length str)
        in if len \<noteq> count then Inl InternalError else Inr str)"

subsection \<open>The C library's formatted input, as far as the constructor uses it\<close>

definition isspace :: "char \<Rightarrow> bool" where
  "isspace c = (c \<in> set [CHR '' '', CHR 0x09, CHR 0x0A, CHR 0x0B, CHR 0x0C, CHR 0x0D])"

definition hexval :: "char \<Rightarrow> nat option" where
  "hexval c = map_of
     [(CHR ''0'', 0), (CHR ''1'', 1), (CHR ''2'', 2), (CHR ''3'', 3), (CHR ''4'', 4),
      (CHR ''5'', 5), (CHR ''6'', 6), (CHR ''7'', 7), (CHR ''8'', 8), (CHR ''9'', 9),
      (CHR ''a'', 10), (CHR ''b'', 11), (CHR ''c'', 12), (CHR ''d'', 13), (CHR ''e'', 14),
      (CHR ''f'', 15),
      (CHR ''A'', 10), (CHR ''B'', 11), (CHR ''C'', 12), (CHR ''D'', 13), (CHR ''E'', 14),
      (CHR ''F'', 15)] c"

fun scan_hex_digits :: "nat \<Rightarrow> string \<Rightarrow> nat list \<times> string" where
  "scan_hex_digits 0 cs = ([], cs)"
| "scan_hex_digits (Suc w) [] = ([], [])"
| "scan_hex_digits (Suc w) (c # cs) =
     (case hexval c of
        None \<Rightarrow> ([], c # cs)
      | Some d \<Rightarrow> (case scan_hex_digits w cs of (ds, r) \<Rightarrow> (d # ds, r)))"

text \<open>
  The directive \<^verbatim>\<open>%02hhx\<close> (field width 2, target \<^verbatim>\<open>unsigned char\<close>): white space is
  skipped, then at most two characters are read: an optional sign, an optional
  \<^verbatim>\<open>0x\<close> prefix (read as the GNU C library does: a bare prefix counts as the digit 0),
  and hexadecimal digits.  The result is the value and the unread rest, or \<open>None\<close>
  when the directive fails.
\<close>

definition scan_hhx :: "nat \<Rightarrow> string \<Rightarrow> (uint8_t \<times> string) option" where
  "scan_hhx width cs0 =
     (case dropWhile isspace cs0 of
        [] \<Rightarrow> None
      | c # cs' \<Rightarrow>
          let (neg, w1, cs1) =
                (if c = CHR ''-'' then (True, width - 1, cs')
                 else if c = CHR ''+'' then (False, width - 1, cs')
                 else (False, width, c # cs'));
              (pre, w2, cs2) =
                (case cs1 of
                   c0 # x # r \<Rightarrow>
                     if 2 \<le> w1 \<and> c0 = CHR ''0'' \<and> (x = CHR ''x'' \<or> x = CHR ''X'')
                     then (True, w1 - 2, r) else (False, w1, cs1)
                 | _ \<Rightarrow> (False, w1, cs1));
              (ds, rest) = scan_hex_digits w2 cs2;
              v = foldl (\<lambda>a d. 16 * a + d) 0 ds
          in if ds = [] \<and> \<not> pre then None
             else Some (if neg then - of_nat v else of_nat v, rest))"

text \<open>
  \<^verbatim>\<open>sscanf(str, "%02hhx:%02hhx:%02hhx:%02hhx:%02hhx:%02hhx", ...)\<close>: the values
  assigned, in the order of the directives; their number is the return value.
\<close>

fun sscanf_eui48 :: "nat \<Rightarrow> string \<Rightarrow> uint8_t list" where
  "sscanf_eui48 0 s = []"
| "sscanf_eui48 (Suc n) s =
     (case scan_hhx 2 s of
        None \<Rightarrow> []
      | Some (v, r) \<Rightarrow>
          if n = 0 then [v]
          else (case r of
                  [] \<Rightarrow> [v]
                | c # r' \<Rightarrow> if c = CHR '':'' then v # sscanf_eui48 n r' else [v]))"

text \<open>\<^verbatim>\<open>EUI48::EUI48(const std::string str)\<close>: the first directive fills \<^verbatim>\<open>b[5]\<close>.\<close>

definition EUI48_of_string :: "string \<Rightarrow> error + EUI48" where
  "EUI48_of_string str =
     (if 17 \<noteq> length str then Inl IllegalArgumentException
      else case sscanf_eui48 6 str of
             [v5, v4, v3, v2, v1, v0] \<Rightarrow> Inr (EUI48 v0 v1 v2 v3 v4 v5)
           | _ \<Rightarrow> Inl IllegalArgumentException)"

text \<open>
  The spec's words for the round-trip law: a valid EUI-48 string has exactly 17
  characters, a colon at every third position and hexadecimal digits elsewhere;
  \<open>toUpperCase\<close> maps the lower-case letters to upper case.
\<close>

definition isxdigit :: "char \<Rightarrow> bool" where
  "isxdigit c = (c \<in> set ''0123456789abcdefABCDEF'')"

definition valid_eui48_string :: "string \<Rightarrow> bool" where
  "valid_eui48_string s =
     (length s = 17 \<and>
      list_all (\<lambda>i. if i mod 3 = 2 then s ! i = CHR '':'' else isxdigit (s ! i)) [0..<17])"

definition toupper :: "char \<Rightarrow> char" where
  "toupper c =
     (case map_of
        [(CHR ''a'', CHR ''A''), (CHR ''b'', CHR ''B''), (CHR ''c'', CHR ''C''),
         (CHR ''d'', CHR ''D''), (CHR ''e'', CHR ''E''), (CHR ''f'', CHR ''F''),
         (CHR ''g'', CHR ''G''), (CHR ''h'', CHR ''H''), (CHR ''i'', CHR ''I''),
         (CHR ''j'', CHR ''J''), (CHR ''k'', CHR ''K''), (CHR ''l'', CHR ''L''),
         (CHR ''m'', CHR ''M''), (CHR ''n'', CHR ''N''), (CHR ''o'', CHR ''O''),
         (CHR ''p'', CHR ''P''), (CHR ''q'', CHR ''Q''), (CHR ''r'', CHR ''R''),
         (CHR ''s'', CHR ''S''), (CHR ''t'', CHR ''T''), (CHR ''u'', CHR ''U''),
         (CHR ''v'', CHR ''V''), (CHR ''w'', CHR ''W''), (CHR ''x'', CHR ''X''),
         (CHR ''y'', CHR ''Y''), (CHR ''z'', CHR ''Z'')] c of
        Some u \<Rightarrow> u
      | None \<Rightarrow> c)"

definition toUpperCase :: "string \<Rightarrow> string" where
  "toUpperCase s = map toupper s"

section \<open>Advertising and EIR data\<close>

datatype BDAddressType = BDADDR_BREDR | BDADDR_LE_PUBLIC | BDADDR_LE_RANDOM | BDADDR_UNDEFINED

text \<open>
  The bits of \<^verbatim>\<open>EIRDataType\<close>, in the order of \<^verbatim>\<open>EIRDATATYPE_ENUM\<close> (\<^verbatim>\<open>NONE\<close> is the
  empty mask).  A mask is the set of its bits.
\<close>

datatype EIRDataType =
    EIR_EVT_TYPE | EIR_BDADDR_TYPE | EIR_BDADDR | EIR_FLAGS | EIR_NAME | EIR_NAME_SHORT
  | EIR_RSSI | EIR_TX_POWER | EIR_MANUF_DATA | EIR_DEVICE_CLASS | EIR_APPEARANCE | EIR_HASH
  | EIR_RANDOMIZER | EIR_DEVICE_ID | EIR_SERVICE_UUID

datatype Source = NA | AD | EIR

text \<open>
  Modelled from the spec: \<^verbatim>\<open>uuid_t\<close>, a tagged variant over the 16, 32 and 128 bit
  forms whose equality compares the canonical 128 bit forms over the Bluetooth base
  UUID (the class is declared in a header that is not among the sources).
\<close>

datatype uuid_t = uuid16_t uint16_t | uuid32_t uint32_t | uuid128_t uint128_t

definition BT_BASE_UUID :: uint128_t where
  "BT_BASE_UUID = 0x0000000000001000800000805F9B34FB"

definition toUUID128 :: "uuid_t \<Rightarrow> uint128_t" where
  "toUUID128 u =
     (case u of
        uuid16_t v \<Rightarrow> BT_BASE_UUID + push_bit 96 (ucast v)
      | uuid32_t v \<Rightarrow> BT_BASE_UUID + push_bit 96 (ucast v)
      | uuid128_t v \<Rightarrow> v)"

definition uuid_equal :: "uuid_t \<Rightarrow> uuid_t \<Rightarrow> bool" where
  "uuid_equal p q = (toUUID128 p = toUUID128 q)"

text \<open>\<^verbatim>\<open>std::to_string\<close> of an unsigned value: its decimal digits.\<close>

function to_string :: "nat \<Rightarrow> string" where
  "to_string n =
     (if n < 10 then [''0123456789'' ! n]
      else to_string (n div 10) @ [''0123456789'' ! (n mod 10)])"
  by pat_completeness auto
termination
  by (relation "measure id") auto

declare to_string.simps [simp del]

record ManufactureSpecificData =
  msd_company :: uint16_t
  msd_companyName :: string
  msd_data :: octets

definition bt_compidtostr :: "uint16_t \<Rightarrow> string" where
  "bt_compidtostr companyid = to_string (unat companyid)"

text \<open>The constructor \<^verbatim>\<open>ManufactureSpecificData(company, data, data_len)\<close>.\<close>

definition new_ManufactureSpecificData :: "uint16_t \<Rightarrow> octets \<Rightarrow> ManufactureSpecificData" where
  "new_ManufactureSpecificData c bs =
     \<lparr>msd_company = c, msd_companyName = bt_compidtostr c, msd_data = bs\<rparr>"

record EInfoReport =
  source :: Source
  timestamp :: uint64_t
  evt_type :: uint8_t
  address_type :: BDAddressType
  address :: EUI48
  flags :: uint8_t
  name :: octets
  name_short :: octets
  rssi :: uint8_t
  tx_power :: uint8_t
  device_class :: uint32_t
  appearance :: uint16_t
  hash :: octets
  randomizer :: octets
  did_source :: uint16_t
  did_vendor :: uint16_t
  did_product :: uint16_t
  did_version :: uint16_t
  msd :: "ManufactureSpecificData option"
  services :: "uuid_t list"
  eir_data_mask :: "EIRDataType set"

text \<open>
  Modelled from the spec: the setters of \<^verbatim>\<open>EInfoReport\<close>, which the class declares
  inline in a header that is not among the sources.  Each stores its argument and
  marks its bit in the mask (``any setter marks its bit in \<^verbatim>\<open>dirty_mask\<close>'').  The
  signed octets \<^verbatim>\<open>flags\<close> and \<^verbatim>\<open>tx_power\<close> are kept as their bit patterns.
\<close>

definition set_bit_mask :: "EIRDataType \<Rightarrow> EInfoReport \<Rightarrow> EInfoReport" where
  "set_bit_mask b r = r\<lparr>eir_data_mask := insert b (eir_data_mask r)\<rparr>"

definition setFlags :: "uint8_t \<Rightarrow> EInfoReport \<Rightarrow> EInfoReport" where
  "setFlags f r = set_bit_mask EIR_FLAGS (r\<lparr>flags := f\<rparr>)"

definition setTxPower :: "uint8_t \<Rightarrow> EInfoReport \<Rightarrow> EInfoReport" where
  "setTxPower v r = set_bit_mask EIR_TX_POWER (r\<lparr>tx_power := v\<rparr>)"

definition setDeviceClass :: "uint32_t \<Rightarrow> EInfoReport \<Rightarrow> EInfoReport" where
  "setDeviceClass c r = set_bit_mask EIR_DEVICE_CLASS (r\<lparr>device_class := c\<rparr>)"

definition setDeviceID ::
  "uint16_t \<Rightarrow> uint16_t \<Rightarrow> uint16_t \<Rightarrow> uint16_t \<Rightarrow> EInfoReport \<Rightarrow> EInfoReport" where
  "setDeviceID src vendor product version r =
     set_bit_mask EIR_DEVICE_ID
       (r\<lparr>did_source := src, did_vendor := vendor, did_product := product,
          did_version := version\<rparr>)"

definition setAppearance :: "uint16_t \<Rightarrow> EInfoReport \<Rightarrow> EInfoReport" where
  "setAppearance a r = set_bit_mask EIR_APPEARANCE (r\<lparr>appearance := a\<rparr>)"

definition setHash :: "octets \<Rightarrow> EInfoReport \<Rightarrow> EInfoReport" where
  "setHash h r = set_bit_mask EIR_HASH (r\<lparr>hash := h\<rparr>)"

definition setRandomizer :: "octets \<Rightarrow> EInfoReport \<Rightarrow> EInfoReport" where
  "setRandomizer h r = set_bit_mask EIR_RANDOMIZER (r\<lparr>randomizer := h\<rparr>)"

definition setManufactureSpecificData :: "uint16_t \<Rightarrow> octets \<Rightarrow> EInfoReport \<Rightarrow> EInfoReport" where
  "setManufactureSpecificData c bs r =
     set_bit_mask EIR_MANUF_DATA (r\<lparr>msd := Some (new_ManufactureSpecificData c bs)\<rparr>)"

text \<open>
  Modelled from the spec: \<^verbatim>\<open>get_string(buffer, buffer_len, max_len)\<close>, the text of the
  buffer truncated to \<open>max_len\<close> octets (the function is not among the sources).
\<close>

definition get_string :: "memory \<Rightarrow> int \<Rightarrow> int \<Rightarrow> int \<Rightarrow> octets" where
  "get_string data p buffer_len max_len = octets_at data p (min buffer_len max_len)"

text \<open>\<^verbatim>\<open>EInfoReport::setName\<close>, \<^verbatim>\<open>setShortName\<close> and \<^verbatim>\<open>addService\<close>, from the source.\<close>

definition setName :: "memory \<Rightarrow> int \<Rightarrow> int \<Rightarrow> EInfoReport \<Rightarrow> EInfoReport" where
  "setName data p buffer_len r =
     set_bit_mask EIR_NAME (r\<lparr>name := get_string data p buffer_len 30\<rparr>)"

definition setShortName :: "memory \<Rightarrow> int \<Rightarrow> int \<Rightarrow> EInfoReport \<Rightarrow> EInfoReport" where
  "setShortName data p buffer_len r =
     set_bit_mask EIR_NAME_SHORT (r\<lparr>name_short := get_string data p buffer_len 30\<rparr>)"

definition addService :: "uuid_t \<Rightarrow> EInfoReport \<Rightarrow> EInfoReport" where
  "addService uuid r =
     (case find (\<lambda>p. uuid_equal p uuid) (services r) of
        None \<Rightarrow> r\<lparr>services := services r @ [uuid]\<rparr>
      | Some _ \<Rightarrow> r)"

subsection \<open>The element iterator\<close>

text \<open>
  The GAP data types \<^verbatim>\<open>read_data\<close> switches on.  Their octet values are declared in
  \<^verbatim>\<open>BTTypes.hpp\<close>, which is not among the sources: the decoder takes them as the
  parameter \<open>G\<close>.  \<open>GAP_T_assigned\<close> lists the numbers the Bluetooth assigned-numbers
  document gives them, which the spec's EIR scenario uses (\<open>0x01\<close> flags, \<open>0x03\<close>
  16 bit UUIDs, \<open>0x08\<close> shortened name); the evaluations below run on it.
\<close>

datatype GAP_T =
    FLAGS | UUID16_INCOMPLETE | UUID16_COMPLETE | UUID32_INCOMPLETE | UUID32_COMPLETE
  | UUID128_INCOMPLETE | UUID128_COMPLETE | NAME_LOCAL_SHORT | NAME_LOCAL_COMPLETE
  | TX_POWER_LEVEL | SSP_CLASS_OF_DEVICE | SSP_HASH_C192 | SSP_RANDOMIZER_R192 | DEVICE_ID
  | SOLICIT_UUID16 | SOLICIT_UUID128 | SVC_DATA_UUID16 | PUB_TRGT_ADDR | RND_TRGT_ADDR
  | GAP_APPEARANCE | SOLICIT_UUID32 | SVC_DATA_UUID32 | SVC_DATA_UUID128
  | MANUFACTURE_SPECIFIC

fun GAP_T_assigned :: "GAP_T \<Rightarrow> uint8_t" where
  "GAP_T_assigned FLAGS = 0x01"
| "GAP_T_assigned UUID16_INCOMPLETE = 0x02"
| "GAP_T_assigned UUID16_COMPLETE = 0x03"
| "GAP_T_assigned UUID32_INCOMPLETE = 0x04"
| "GAP_T_assigned UUID32_COMPLETE = 0x05"
| "GAP_T_assigned UUID128_INCOMPLETE = 0x06"
| "GAP_T_assigned UUID128_COMPLETE = 0x07"
| "GAP_T_assigned NAME_LOCAL_SHORT = 0x08"
| "GAP_T_assigned NAME_LOCAL_COMPLETE = 0x09"
| "GAP_T_assigned TX_POWER_LEVEL = 0x0A"
| "GAP_T_assigned SSP_CLASS_OF_DEVICE = 0x0D"
| "GAP_T_assigned SSP_HASH_C192 = 0x0E"
| "GAP_T_assigned SSP_RANDOMIZER_R192 = 0x0F"
| "GAP_T_assigned DEVICE_ID = 0x10"
| "GAP_T_assigned SOLICIT_UUID16 = 0x14"
| "GAP_T_assigned SOLICIT_UUID128 = 0x15"
| "GAP_T_assigned SVC_DATA_UUID16 = 0x16"
| "GAP_T_assigned PUB_TRGT_ADDR = 0x17"
| "GAP_T_assigned RND_TRGT_ADDR = 0x18"
| "GAP_T_assigned GAP_APPEARANCE = 0x19"
| "GAP_T_assigned SOLICIT_UUID32 = 0x1F"
| "GAP_T_assigned SVC_DATA_UUID32 = 0x20"
| "GAP_T_assigned SVC_DATA_UUID128 = 0x21"
| "GAP_T_assigned MANUFACTURE_SPECIFIC = 0xFF"

definition ENOENT :: int where
  "ENOENT = 2"

text \<open>
  The out-parameters \<^verbatim>\<open>*eir_elem_len\<close>, \<^verbatim>\<open>*eir_elem_type\<close> and \<^verbatim>\<open>*eir_elem_data\<close>: the
  net length, the type, and the net data pointer as an index from \<^verbatim>\<open>data\<close>.
\<close>

type_synonym eir_elem = "uint8_t \<times> uint8_t \<times> int"

text \<open>
  \<^verbatim>\<open>EInfoReport::next_data_elem\<close>: the return value and the out-parameters, which keep
  their old value \<open>e\<close> where the source does not write them.  The length test lets an
  element through when \<open>len + offset = size\<close>, whose last octet is \<^verbatim>\<open>data[size]\<close>.
\<close>

definition next_data_elem :: "eir_elem \<Rightarrow> memory \<Rightarrow> int \<Rightarrow> int \<Rightarrow> int \<times> eir_elem" where
  "next_data_elem e data offset sz =
     (if offset < sz then
        (let len = data offset in
         if len = 0 then (0, e)
         else if uint len + offset > sz then (- ENOENT, e)
         else (offset + 1 + uint len, (len - 1, data (offset + 1), offset + 2)))
      else (- ENOENT, e))"

subsection \<open>The decode loop\<close>

text \<open>The loops \<^verbatim>\<open>for(int j=0; j<elem_len/N; j++)\<close> over the UUIDs of an element.\<close>

fun add_uuids :: "(int \<Rightarrow> uuid_t) \<Rightarrow> nat list \<Rightarrow> EInfoReport \<Rightarrow> EInfoReport" where
  "add_uuids rd [] r = r"
| "add_uuids rd (j # js) r = add_uuids rd js (addService (rd (int j)) r)"

definition u16_of_octets :: "uint8_t \<Rightarrow> uint8_t \<Rightarrow> uint16_t" where
  "u16_of_octets lo hi = ucast lo OR push_bit 8 (ucast hi)"

text \<open>
  The \<^verbatim>\<open>switch\<close> of \<^verbatim>\<open>read_data\<close> on one element, its cases in the order of the
  source.  \<open>data\<close> is the pointer that \<^verbatim>\<open>read_data\<close> was given; the element's own octets
  start at \<open>elem_data\<close>.
\<close>

definition read_data_switch ::
  "(GAP_T \<Rightarrow> uint8_t) \<Rightarrow> memory \<Rightarrow> eir_elem \<Rightarrow> EInfoReport \<Rightarrow> EInfoReport" where
  "read_data_switch G data e r =
     (case e of (elem_len, elem_type, elem_data) \<Rightarrow>
        if elem_type = G FLAGS then
          (if 1 \<le> elem_len then setFlags (data elem_data) r else r)
        else if elem_type = G UUID16_INCOMPLETE \<or> elem_type = G UUID16_COMPLETE then
          add_uuids (\<lambda>j. uuid16_t (get_uint16_at data (elem_data + j * 2) True))
            [0..<unat elem_len div 2] r
        else if elem_type = G UUID32_INCOMPLETE \<or> elem_type = G UUID32_COMPLETE then
          add_uuids (\<lambda>j. uuid32_t (get_uint32_at data (elem_data + j * 4) True))
            [0..<unat elem_len div 4] r
        else if elem_type = G UUID128_INCOMPLETE \<or> elem_type = G UUID128_COMPLETE then
          add_uuids (\<lambda>j. uuid128_t (get_uint128_at data (elem_data + j * 16) True))
            [0..<unat elem_len div 16] r
        else if elem_type = G NAME_LOCAL_SHORT then
          setShortName data elem_data (uint elem_len) r
        else if elem_type = G NAME_LOCAL_COMPLETE then
          setName data elem_data (uint elem_len) r
        else if elem_type = G TX_POWER_LEVEL then
          (if 1 \<le> elem_len then setTxPower (data elem_data) r else r)
        else if elem_type = G SSP_CLASS_OF_DEVICE then
          (if 3 \<le> elem_len then
             setDeviceClass
               (ucast (data elem_data) OR push_bit 8 (ucast (data (elem_data + 1)))
                  OR push_bit 16 (ucast (data (elem_data + 2)))) r
           else r)
        else if elem_type = G DEVICE_ID then
          (if 8 \<le> elem_len then
             setDeviceID (u16_of_octets (data 0) (data 1)) (u16_of_octets (data 2) (data 3))
               (u16_of_octets (data 4) (data 5)) (u16_of_octets (data 6) (data 7)) r
           else r)
        else if elem_type = G SOLICIT_UUID16 \<or> elem_type = G SOLICIT_UUID128
              \<or> elem_type = G SVC_DATA_UUID16 \<or> elem_type = G PUB_TRGT_ADDR
              \<or> elem_type = G RND_TRGT_ADDR \<or> elem_type = G GAP_APPEARANCE then
          (if 2 \<le> elem_len then setAppearance (get_uint16_at data (elem_data + 0) True) r
           else r)
        else if elem_type = G SSP_HASH_C192 then
          (if 16 \<le> elem_len then setHash (octets_at data elem_data 16) r else r)
        else if elem_type = G SSP_RANDOMIZER_R192 then
          (if 16 \<le> elem_len then setRandomizer (octets_at data elem_data 16) r else r)
        else if elem_type = G SOLICIT_UUID32 \<or> elem_type = G SVC_DATA_UUID32
              \<or> elem_type = G SVC_DATA_UUID128 then
          r
        else if elem_type = G MANUFACTURE_SPECIFIC then
          (if 2 \<le> elem_len then
             (let company = get_uint16_at data (elem_data + 0) True
              in setManufactureSpecificData company
                   (octets_at data (elem_data + 2) (uint elem_len - 2)) r)
           else r)
        else r)"

text \<open>
  The \<^verbatim>\<open>while\<close> loop of \<^verbatim>\<open>read_data\<close>, on the loop variables \<open>offset\<close> and \<open>count\<close>, the
  out-parameters and the report.  The loop goes on while \<^verbatim>\<open>next_data_elem\<close> returns a
  positive offset; its termination is proved on \<open>size - offset\<close>, for every memory.
\<close>

function read_data_loop ::
  "(GAP_T \<Rightarrow> uint8_t) \<Rightarrow> memory \<Rightarrow> int \<Rightarrow> int \<Rightarrow> int \<Rightarrow> eir_elem \<Rightarrow> EInfoReport
     \<Rightarrow> int \<times> EInfoReport" where
  "read_data_loop G data sz offset count e r =
     (case next_data_elem e data offset sz of
        (offset', e') \<Rightarrow>
          if 0 < offset' then
            read_data_loop G data sz offset' (count + 1) e' (read_data_switch G data e' r)
          else (count, r))"
  by pat_completeness auto
termination
  by (relation "measure (\<lambda>(G, data, sz, offset, count, e, r). nat (sz - offset))")
     (auto simp: next_data_elem_def ENOENT_def Let_def add_pos_nonneg split: if_splits)

declare read_data_loop.simps [simp del]

text \<open>
  \<^verbatim>\<open>EInfoReport::read_data(data, data_length)\<close>: the count of elements and the report.
  The out-parameters are uninitialised when the loop starts and are not read before
  \<^verbatim>\<open>next_data_elem\<close> has written them.
\<close>

definition read_data ::
  "(GAP_T \<Rightarrow> uint8_t) \<Rightarrow> memory \<Rightarrow> uint8_t \<Rightarrow> EInfoReport \<Rightarrow> int \<times> EInfoReport" where
  "read_data G data data_length r = read_data_loop G data (uint data_length) 0 0 (0, 0, 0) r"

text \<open>A freshly constructed report: every field at its default, the mask empty.\<close>

definition new_EInfoReport :: EInfoReport where
  "new_EInfoReport =
     \<lparr>source = NA, timestamp = 0, evt_type = 0, address_type = BDADDR_UNDEFINED,
      address = EUI48 0 0 0 0 0 0, flags = 0, name = [], name_short = [], rssi = 0,
      tx_power = 0, device_class = 0, appearance = 0, hash = [], randomizer = [],
      did_source = 0, did_vendor = 0, did_product = 0, did_version = 0, msd = None,
      services = [], eir_data_mask = {}\<rparr>"


section \<open>GATT data\<close>

datatype RangeType = Service | CharacteristicDecl | CharacteristicValue | Descriptor

record GATTUUIDHandleRange =
  range_type :: RangeType
  startHandle :: uint16_t
  endHandle :: uint16_t
  range_uuid :: uuid_t

record GATTClientCharacteristicConfigDecl =
  cccd_handle :: uint16_t
  cccd_value :: uint16_t

text \<open>
  \<^verbatim>\<open>GATTCharacterisicsDecl\<close>, its fields in the order of the constructor call in
  \<^verbatim>\<open>discoverCharacteristics\<close>; \<open>handle\<close> is the characteristic value handle.
\<close>

record GATTCharacterisicsDecl =
  service_uuid :: uuid_t
  service_handle :: uint16_t
  service_handle_end :: uint16_t
  properties :: uint8_t
  handle :: uint16_t
  char_uuid :: uuid_t
  config :: "GATTClientCharacteristicConfigDecl option"

record GATTPrimaryService =
  srv_declaration :: GATTUUIDHandleRange
  characteristicDeclList :: "GATTCharacterisicsDecl list"

section \<open>ATT PDUs\<close>

datatype Opcode =
    ATT_PDU_UNDEFINED
  | ATT_ERROR_RSP
  | ATT_EXCHANGE_MTU_REQ | ATT_EXCHANGE_MTU_RSP
  | ATT_FIND_INFORMATION_REQ | ATT_FIND_INFORMATION_RSP
  | ATT_READ_BY_TYPE_REQ | ATT_READ_BY_TYPE_RSP
  | ATT_READ_REQ | ATT_READ_RSP
  | ATT_READ_BLOB_REQ | ATT_READ_BLOB_RSP
  | ATT_READ_BY_GROUP_TYPE_REQ | ATT_READ_BY_GROUP_TYPE_RSP
  | ATT_WRITE_REQ | ATT_WRITE_RSP
  | ATT_HANDLE_VALUE_NTF | ATT_HANDLE_VALUE_IND | ATT_HANDLE_VALUE_CFM
  | ATT_MULTIPLE_HANDLE_VALUE_NTF

text \<open>
  Modelled from the spec: a received PDU as the factory \<^verbatim>\<open>AttPDUMsg::getSpecialized\<close>
  hands it out (the PDU classes are declared in a header that is not among the
  sources).  \<open>pdu\<close> holds all octets of the PDU, the opcode octet first; \<open>opcode\<close> is
  what \<^verbatim>\<open>getOpcode()\<close> answers for it.
\<close>

record AttPDUMsg =
  opcode :: Opcode
  pdu :: octets

datatype GattAttributeType =
    PRIMARY_SERVICE | SECONDARY_SERVICE | INCLUDE_DECLARATION | CHARACTERISTIC
  | CLIENT_CHARACTERISTIC_CONFIGURATION

text \<open>
  Modelled from the spec: the request PDUs the engine constructs, by constructor
  and arguments, and the size of each (one opcode octet, two octets for a handle, an
  offset, an MTU or a 16 bit attribute type, then the value).
\<close>

datatype AttRequest =
    AttExchangeMTU uint16_t
  | AttReadByNTypeReq bool uint16_t uint16_t GattAttributeType
  | AttFindInfoReq uint16_t uint16_t
  | AttReadReq uint16_t
  | AttReadBlobReq uint16_t uint16_t
  | AttWriteReq uint16_t octets
  | AttHandleValueCfm

fun getSize :: "AttRequest \<Rightarrow> int" where
  "getSize (AttExchangeMTU m) = 1 + 2"
| "getSize (AttReadByNTypeReq g s e t) = 1 + 2 + 2 + 2"
| "getSize (AttFindInfoReq s e) = 1 + 2 + 2"
| "getSize (AttReadReq h) = 1 + 2"
| "getSize (AttReadBlobReq h off) = 1 + 2 + 2"
| "getSize (AttWriteReq h v) = 1 + 2 + int (length v)"
| "getSize AttHandleValueCfm = 1"

text \<open>
  Modelled from the spec: the bounds-checked readers of a PDU's octets (``out-of-range
  access fails with \<^verbatim>\<open>IndexOutOfRange\<close>''), little-endian as all ATT fields are.
\<close>

definition pdu_get_uint8 :: "octets \<Rightarrow> int \<Rightarrow> error + uint8_t" where
  "pdu_get_uint8 p i =
     (case peek p i of None \<Rightarrow> Inl IndexOutOfBoundsException | Some v \<Rightarrow> Inr v)"

definition pdu_get_uint16 :: "octets \<Rightarrow> int \<Rightarrow> error + uint16_t" where
  "pdu_get_uint16 p i =
     (case get_uint16 p i True of None \<Rightarrow> Inl IndexOutOfBoundsException | Some v \<Rightarrow> Inr v)"

datatype TypeSize = UUID16_SZ | UUID32_SZ | UUID128_SZ

text \<open>
  Modelled from the spec: \<^verbatim>\<open>uuid_t::toTypeSize\<close> accepts the three widths 2, 4 and 16
  of the UUID variants and rejects any other size as an illegal argument;
  \<^verbatim>\<open>get_uuid(offset, type_size)\<close> reads a UUID of that width.
\<close>

definition toTypeSize :: "int \<Rightarrow> error + TypeSize" where
  "toTypeSize n =
     (if n = 2 then Inr UUID16_SZ
      else if n = 4 then Inr UUID32_SZ
      else if n = 16 then Inr UUID128_SZ
      else Inl IllegalArgumentException)"

definition pdu_get_uuid :: "octets \<Rightarrow> int \<Rightarrow> TypeSize \<Rightarrow> error + uuid_t" where
  "pdu_get_uuid p i tsz =
     (case (case tsz of
              UUID16_SZ \<Rightarrow> map_option uuid16_t (get_uint16 p i True)
            | UUID32_SZ \<Rightarrow> map_option uuid32_t (get_uint32 p i True)
            | UUID128_SZ \<Rightarrow> map_option uuid128_t (get_uint128 p i True)) of
        None \<Rightarrow> Inl IndexOutOfBoundsException
      | Some u \<Rightarrow> Inr u)"

text \<open>
  Modelled from the spec: the accessors of \<^verbatim>\<open>ATT_READ_BY_TYPE_RSP\<close> and
  \<^verbatim>\<open>ATT_READ_BY_GROUP_TYPE_RSP\<close>, which ``carry a length byte + fixed-size element
  array'': the element size is the octet after the opcode, the element count is
  \<open>(pdu_len - 2) / element_total_size\<close> (a division that traps on a zero size), and
  element \<open>i\<close> starts at \<open>2 + i * element_total_size\<close> with its handle (for a group,
  its start handle, followed by the end handle).
\<close>

definition getElementTotalSize :: "AttPDUMsg \<Rightarrow> error + int" where
  "getElementTotalSize p = map_sum id uint (pdu_get_uint8 (pdu p) 1)"

definition getElementCount :: "AttPDUMsg \<Rightarrow> error + int" where
  "getElementCount p =
     (case getElementTotalSize p of
        Inl e \<Rightarrow> Inl e
      | Inr esz \<Rightarrow>
          if esz = 0 then Inl ArithmeticTrap
          else Inr ((int (length (pdu p)) - 2) div esz))"

definition getElementPDUOffset :: "AttPDUMsg \<Rightarrow> int \<Rightarrow> error + int" where
  "getElementPDUOffset p i = map_sum id (\<lambda>esz. 2 + i * esz) (getElementTotalSize p)"

definition getElementHandle :: "AttPDUMsg \<Rightarrow> int \<Rightarrow> error + uint16_t" where
  "getElementHandle p i =
     (case getElementPDUOffset p i of
        Inl e \<Rightarrow> Inl e
      | Inr off \<Rightarrow> pdu_get_uint16 (pdu p) off)"

definition getElementEndHandle :: "AttPDUMsg \<Rightarrow> int \<Rightarrow> error + uint16_t" where
  "getElementEndHandle p i =
     (case getElementPDUOffset p i of
        Inl e \<Rightarrow> Inl e
      | Inr off \<Rightarrow> pdu_get_uint16 (pdu p) (off + 2))"

text \<open>
  Modelled from the spec: the value of \<^verbatim>\<open>ATT_READ_RSP\<close> and \<^verbatim>\<open>ATT_READ_BLOB_RSP\<close> is
  all that follows the opcode octet, and the largest value a PDU can carry is
  \<open>used_mtu - 1\<close>; the MTU of \<^verbatim>\<open>ATT_EXCHANGE_MTU_RSP\<close>, the attribute handle of a
  notification or an indication, and the error code of \<^verbatim>\<open>ATT_ERROR_RSP\<close> (after the
  request's opcode and handle) are read at their offsets in the PDU.
\<close>

definition getPDUValueSize :: "AttPDUMsg \<Rightarrow> int" where
  "getPDUValueSize p = int (length (pdu p)) - 1"

definition getMaxPDUValueSize :: "int \<Rightarrow> int" where
  "getMaxPDUValueSize mtu = mtu - 1"

definition getValue :: "AttPDUMsg \<Rightarrow> error + octets" where
  "getValue p = (if pdu p = [] then Inl IndexOutOfBoundsException else Inr (drop 1 (pdu p)))"

definition getMTUSize :: "AttPDUMsg \<Rightarrow> error + uint16_t" where
  "getMTUSize p = pdu_get_uint16 (pdu p) 1"

definition getHandle :: "AttPDUMsg \<Rightarrow> error + uint16_t" where
  "getHandle p = pdu_get_uint16 (pdu p) 1"

definition getErrorCode :: "AttPDUMsg \<Rightarrow> error + uint8_t" where
  "getErrorCode p = pdu_get_uint8 (pdu p) 4"

definition ATTRIBUTE_NOT_LONG :: uint8_t where
  "ATTRIBUTE_NOT_LONG = 0x0B"

section \<open>The GATT engine\<close>

text \<open>
  The states of \<^verbatim>\<open>GATTHandler\<close>, in the order of \<^verbatim>\<open>STATE_ENUM\<close>; \<open>State_ord\<close> is the
  position that the comparisons \<^verbatim>\<open>Disconnected < state\<close> compare.
\<close>

datatype State =
    Error | Disconnected | Connecting | Connected | RequestInProgress
  | DiscoveringCharacteristics | GetClientCharaceristicConfiguration
  | WaitWriteResponse | WaitReadResponse

fun State_ord :: "State \<Rightarrow> nat" where
  "State_ord Error = 0"
| "State_ord Disconnected = 1"
| "State_ord Connecting = 2"
| "State_ord Connected = 3"
| "State_ord RequestInProgress = 4"
| "State_ord DiscoveringCharacteristics = 5"
| "State_ord GetClientCharaceristicConfiguration = 6"
| "State_ord WaitWriteResponse = 7"
| "State_ord WaitReadResponse = 8"

definition State_less :: "State \<Rightarrow> State \<Rightarrow> bool" where
  "State_less a b = (State_ord a < State_ord b)"

text \<open>
  Modelled from the spec: the L2CAP channel, an external collaborator with
  \<^verbatim>\<open>connect() \<rightarrow> state\<close>, \<^verbatim>\<open>is_open()\<close>, \<^verbatim>\<open>state\<close> and \<^verbatim>\<open>write(buf, len) \<rightarrow> bytes_written\<close>.
  What the channel answers is the environment's choice: \<open>l2_on_connect\<close> is the
  state and the open flag it has after \<^verbatim>\<open>connect()\<close>, \<open>l2_write_result n\<close> the value
  its \<open>n\<close>-th \<^verbatim>\<open>write\<close> returns (\<open>l2_writes\<close> counts the calls so far).  Its states are
  those of the engine, which casts one into the other.
\<close>

record L2CAPComm =
  l2_isOpen :: bool
  l2_state :: State
  l2_on_connect :: "State \<times> bool"
  l2_write_result :: "nat \<Rightarrow> int"
  l2_writes :: nat

text \<open>
  What the engine does to the outside, in the order it does it: a \<^verbatim>\<open>write\<close> on the
  channel (the PDU and the value returned), and a call of the notification or the
  indication listener (the listener, the declaration found for the handle, the PDU
  and, for an indication, the flag \<^verbatim>\<open>cfmSent\<close>).
\<close>

datatype event =
    L2CAP_write AttRequest int
  | notificationReceived nat "GATTCharacterisicsDecl option" AttPDUMsg
  | indicationReceived nat "GATTCharacterisicsDecl option" AttPDUMsg bool

text \<open>
  The engine.  \<open>attPDURing\<close> holds the PDUs that the reader has put or will put into
  the ring, in arrival order; a listener is the identity of the listener object.
\<close>

record GATTHandler =
  state :: State
  l2cap :: L2CAPComm
  serverMTU :: uint16_t
  usedMTU :: uint16_t
  gatt_services :: "GATTPrimaryService list"
  attPDURing :: "AttPDUMsg list"
  gattNotificationListener :: "nat option"
  gattIndicationListener :: "nat option"
  sendIndicationConfirmation :: bool
  trace :: "event list"

text \<open>
  The outcome of a call: it returns a value, throws, or blocks for ever in
  \<^verbatim>\<open>attPDURing.getBlocking()\<close> because no further PDU arrives.  Every call also
  yields the engine as it has left it.
\<close>

datatype 'a result = Return 'a | Throw error | Block

definition then_do ::
  "('s \<Rightarrow> 'a result \<times> 's) \<Rightarrow> ('a \<Rightarrow> 's \<Rightarrow> 'b result \<times> 's) \<Rightarrow> 's \<Rightarrow> 'b result \<times> 's" where
  "then_do m f s =
     (case m s of
        (Return a, s') \<Rightarrow> f a s'
      | (Throw e, s') \<Rightarrow> (Throw e, s')
      | (Block, s') \<Rightarrow> (Block, s'))"

definition try_get :: "error + 'a \<Rightarrow> 's \<Rightarrow> 'a result \<times> 's" where
  "try_get v s = (case v of Inl e \<Rightarrow> (Throw e, s) | Inr a \<Rightarrow> (Return a, s))"

definition validateState :: "GATTHandler \<Rightarrow> error + State" where
  "validateState h =
     (let a = State_less Disconnected (state h);
          b = l2_isOpen (l2cap h);
          c = State_less Disconnected (l2_state (l2cap h))
      in if (a \<or> b \<or> c) \<and> (a \<noteq> b \<or> a \<noteq> c \<or> b \<noteq> c) then Inl InvalidStateException
         else Inr (state h))"

text \<open>\<^verbatim>\<open>l2cap->write(msg.pdu.get_ptr(), msg.pdu.getSize())\<close>: the call and its answer.\<close>

definition l2cap_write :: "AttRequest \<Rightarrow> GATTHandler \<Rightarrow> int \<times> GATTHandler" where
  "l2cap_write msg h =
     (let res = l2_write_result (l2cap h) (l2_writes (l2cap h))
      in (res, h\<lparr>l2cap := (l2cap h)\<lparr>l2_writes := Suc (l2_writes (l2cap h))\<rparr>,
                trace := trace h @ [L2CAP_write msg res]\<rparr>))"

definition send :: "AttRequest \<Rightarrow> GATTHandler \<Rightarrow> bool result \<times> GATTHandler" where
  "send msg h =
     (case validateState h of
        Inl e \<Rightarrow> (Throw e, h)
      | Inr s \<Rightarrow>
          if \<not> State_less Disconnected s then (Return False, h)
          else if getSize msg > uint (usedMTU h) then (Throw IllegalArgumentException, h)
          else (case l2cap_write msg h of
                  (res, h') \<Rightarrow>
                    if 0 > res then (Return False, h'\<lparr>state := Error\<rparr>)
                    else (Return (res = getSize msg), h')))"

definition receiveNext :: "GATTHandler \<Rightarrow> AttPDUMsg result \<times> GATTHandler" where
  "receiveNext h =
     (case attPDURing h of
        [] \<Rightarrow> (Block, h)
      | p # ps \<Rightarrow> (Return p, h\<lparr>attPDURing := ps\<rparr>))"

subsection \<open>MTU exchange and connect\<close>

text \<open>
  \<^verbatim>\<open>ClientMaxMTU\<close> is a constant of the class, declared in the header; the functions
  take it as the parameter \<open>CMM\<close>.
\<close>

definition exchangeMTU :: "int \<Rightarrow> uint16_t \<Rightarrow> GATTHandler \<Rightarrow> uint16_t result \<times> GATTHandler" where
  "exchangeMTU CMM clientMaxMTU h =
     (if uint clientMaxMTU > CMM then (Throw IllegalArgumentException, h)
      else then_do (send (AttExchangeMTU clientMaxMTU)) (\<lambda>sendRes.
             if sendRes then
               then_do receiveNext (\<lambda>p.
                 if opcode p = ATT_EXCHANGE_MTU_RSP then try_get (getMTUSize p)
                 else Pair (Return 0))
             else Pair (Return 0)) h)"

text \<open>
  \<^verbatim>\<open>GATTHandler::connect\<close>.  The signal handler it installs and the reader thread it
  starts are not part of the state; what the reader delivers is in \<open>attPDURing\<close>.
\<close>

definition l2cap_connect :: "GATTHandler \<Rightarrow> State \<times> GATTHandler" where
  "l2cap_connect h =
     (case l2_on_connect (l2cap h) of
        (s, opn) \<Rightarrow> (s, h\<lparr>l2cap := (l2cap h)\<lparr>l2_state := s, l2_isOpen := opn\<rparr>\<rparr>))"

definition connect :: "int \<Rightarrow> GATTHandler \<Rightarrow> bool result \<times> GATTHandler" where
  "connect CMM h =
     then_do (try_get (validateState h)) (\<lambda>s0 h.
       if State_less Disconnected s0 then (Return True, h)
       else (case l2cap_connect h of
               (s, h1) \<Rightarrow>
                 let h2 = h1\<lparr>state := s\<rparr>
                 in then_do (try_get (validateState h2)) (\<lambda>s1 h2.
                      if \<not> State_less Disconnected s1 then (Return False, h2)
                      else then_do (exchangeMTU CMM (of_int CMM)) (\<lambda>mtu h3.
                             let h4 = (if 0 < mtu then h3\<lparr>serverMTU := mtu\<rparr> else h3)
                             in (Return True,
                                 h4\<lparr>usedMTU := of_int (min CMM (uint (serverMTU h4)))\<rparr>)) h2) h2)) h"

subsection \<open>The reader's dispatch of a received PDU\<close>

definition findCharacterisics_service ::
  "uint16_t \<Rightarrow> GATTPrimaryService \<Rightarrow> GATTCharacterisicsDecl option" where
  "findCharacterisics_service charHandle service =
     find (\<lambda>decl. charHandle = handle decl) (characteristicDeclList service)"

fun findCharacterisics_services ::
  "uint16_t \<Rightarrow> GATTPrimaryService list \<Rightarrow> GATTCharacterisicsDecl option" where
  "findCharacterisics_services charHandle [] = None"
| "findCharacterisics_services charHandle (s # ss) =
     (case findCharacterisics_service charHandle s of
        Some decl \<Rightarrow> Some decl
      | None \<Rightarrow> findCharacterisics_services charHandle ss)"

definition findCharacterisics :: "uint16_t \<Rightarrow> GATTHandler \<Rightarrow> GATTCharacterisicsDecl option" where
  "findCharacterisics charHandle h = findCharacterisics_services charHandle (gatt_services h)"

text \<open>
  The block \<^verbatim>\<open>if( 0 < len ) { ... }\<close> of \<^verbatim>\<open>l2capReaderThreadImpl\<close>, on the PDU just read.
  A listener call is an event of the trace; the listener itself is outside the
  engine and is taken to return.
\<close>

definition l2capReader_dispatch :: "AttPDUMsg \<Rightarrow> GATTHandler \<Rightarrow> unit result \<times> GATTHandler" where
  "l2capReader_dispatch attPDU h =
     (let opc = opcode attPDU in
      if opc = ATT_HANDLE_VALUE_NTF then
        (case gattNotificationListener h of
           None \<Rightarrow> (Return (), h)
         | Some l \<Rightarrow>
             then_do (try_get (getHandle attPDU)) (\<lambda>hnd h1.
               (Return (),
                h1\<lparr>trace := trace h1 @
                       [notificationReceived l (findCharacterisics hnd h1) attPDU]\<rparr>)) h)
      else if opc = ATT_HANDLE_VALUE_IND then
        then_do (if sendIndicationConfirmation h then send AttHandleValueCfm
                 else Pair (Return False)) (\<lambda>cfmSent h1.
          case gattIndicationListener h1 of
            None \<Rightarrow> (Return (), h1)
          | Some l \<Rightarrow>
              then_do (try_get (getHandle attPDU)) (\<lambda>hnd h2.
                (Return (),
                 h2\<lparr>trace := trace h2 @
                        [indicationReceived l (findCharacterisics hnd h2) attPDU cfmSent]\<rparr>)) h1) h
      else if opc = ATT_MULTIPLE_HANDLE_VALUE_NTF then (Return (), h)
      else (Return (), h\<lparr>attPDURing := attPDURing h @ [attPDU]\<rparr>))"

subsection \<open>Primary service discovery\<close>

definition and_then :: "error + 'a \<Rightarrow> ('a \<Rightarrow> error + 'b) \<Rightarrow> error + 'b" where
  "and_then v f = (case v of Inl e \<Rightarrow> Inl e | Inr a \<Rightarrow> f a)"

text \<open>
  The service pushed for element \<open>i\<close> of a group response.  The reads are taken in
  the order the arguments are written; C++ leaves the order open, which only decides
  which exception a malformed PDU raises.
\<close>

definition dps_element :: "AttPDUMsg \<Rightarrow> int \<Rightarrow> error + GATTPrimaryService" where
  "dps_element p i =
     and_then (getElementPDUOffset p i) (\<lambda>ePDUOffset.
     and_then (getElementTotalSize p) (\<lambda>esz.
     and_then (pdu_get_uint16 (pdu p) ePDUOffset) (\<lambda>start.
     and_then (pdu_get_uint16 (pdu p) (ePDUOffset + 2)) (\<lambda>end.
     and_then (toTypeSize (esz - 2 - 2)) (\<lambda>tsz.
     and_then (pdu_get_uuid (pdu p) (ePDUOffset + 2 + 2) tsz) (\<lambda>u.
       Inr \<lparr>srv_declaration =
              \<lparr>range_type = Service, startHandle = start, endHandle = end, range_uuid = u\<rparr>,
            characteristicDeclList = []\<rparr>))))))"

text \<open>
  The loop \<^verbatim>\<open>for(int i=0; i<count; i++)\<close> over the elements; when a read throws, the
  services pushed before stay in \<open>result\<close>.
\<close>

fun dps_elements ::
  "AttPDUMsg \<Rightarrow> nat list \<Rightarrow> GATTPrimaryService list
     \<Rightarrow> (error + unit) \<times> GATTPrimaryService list" where
  "dps_elements p [] result = (Inr (), result)"
| "dps_elements p (i # is) result =
     (case dps_element p (int i) of
        Inl e \<Rightarrow> (Inl e, result)
      | Inr srv \<Rightarrow> dps_elements p is (result @ [srv]))"

text \<open>
  One pass of the \<^verbatim>\<open>while(!done)\<close> loop of \<^verbatim>\<open>discoverPrimaryServices\<close>: the outcome
  (the new value of \<^verbatim>\<open>done\<close> when the pass completes), \<^verbatim>\<open>startHandle\<close> (here \<open>sh\<close>), \<^verbatim>\<open>result\<close> and
  the engine.
\<close>

definition dps_body ::
  "uint16_t \<Rightarrow> GATTPrimaryService list \<Rightarrow> GATTHandler
     \<Rightarrow> bool result \<times> uint16_t \<times> GATTPrimaryService list \<times> GATTHandler" where
  "dps_body sh result h =
     (case send (AttReadByNTypeReq True sh 0xffff PRIMARY_SERVICE) h of
        (Throw e, h1) \<Rightarrow> (Throw e, sh, result, h1)
      | (Block, h1) \<Rightarrow> (Block, sh, result, h1)
      | (Return sendRes, h1) \<Rightarrow>
          if sendRes then
            (case receiveNext h1 of
               (Throw e, h2) \<Rightarrow> (Throw e, sh, result, h2)
             | (Block, h2) \<Rightarrow> (Block, sh, result, h2)
             | (Return p, h2) \<Rightarrow>
                 if opcode p = ATT_READ_BY_GROUP_TYPE_RSP then
                   (case getElementCount p of
                      Inl e \<Rightarrow> (Throw e, sh, result, h2)
                    | Inr count \<Rightarrow>
                        (case dps_elements p [0..<nat count] result of
                           (Inl e, result') \<Rightarrow> (Throw e, sh, result', h2)
                         | (Inr _, result') \<Rightarrow>
                             (case getElementEndHandle p (count - 1) of
                                Inl e \<Rightarrow> (Throw e, sh, result', h2)
                              | Inr eh \<Rightarrow>
                                  if eh < 0xffff then (Return False, eh + 1, result', h2)
                                  else (Return True, eh, result', h2))))
                 else if opcode p = ATT_ERROR_RSP then (Return True, sh, result, h2)
                 else (Return True, sh, result, h2))
          else (Return True, sh, result, h1))"

function dps_loop ::
  "uint16_t \<Rightarrow> GATTPrimaryService list \<Rightarrow> GATTHandler
     \<Rightarrow> unit result \<times> GATTPrimaryService list \<times> GATTHandler" where
  "dps_loop sh result h =
     (case dps_body sh result h of
        (Return done, sh', result', h') \<Rightarrow>
          if done then (Return (), result', h') else dps_loop sh' result' h'
      | (Throw e, sh', result', h') \<Rightarrow> (Throw e, result', h')
      | (Block, sh', result', h') \<Rightarrow> (Block, result', h'))"
  by pat_completeness auto
termination
  by (relation "measure (\<lambda>(sh, result, h). length (attPDURing h))")
     (auto simp: dps_body_def send_def receiveNext_def l2cap_write_def Let_def
        split: prod.splits result.splits if_splits sum.splits list.splits)

declare dps_loop.simps [simp del]

text \<open>\<^verbatim>\<open>GATTHandler::discoverPrimaryServices(result)\<close>: the value returned and \<open>result\<close>.\<close>

definition discoverPrimaryServices ::
  "GATTHandler \<Rightarrow> bool result \<times> GATTPrimaryService list \<times> GATTHandler" where
  "discoverPrimaryServices h =
     (case dps_loop 0x0001 [] h of
        (Return _, result, h') \<Rightarrow> (Return (0 < length result), result, h')
      | (Throw e, result, h') \<Rightarrow> (Throw e, result, h')
      | (Block, result, h') \<Rightarrow> (Block, result, h'))"

subsection \<open>Client characteristic configuration discovery\<close>

text \<open>
  The body of the loop \<^verbatim>\<open>for(size_t j=0; j<service->characteristicDeclList.size(); j++)\<close>
  for one index, and the loop.
\<close>

definition ccc_attach_at ::
  "uint16_t \<Rightarrow> uint16_t \<Rightarrow> GATTCharacterisicsDecl list \<Rightarrow> nat \<Rightarrow> GATTCharacterisicsDecl list" where
  "ccc_attach_at config_handle config_value decls j =
     (let decl = decls ! j;
          decl_handle_end =
            (if j + 1 < length decls then handle (decls ! (j + 1))
             else service_handle_end decl)
      in if config_handle > handle decl \<and> config_handle \<le> decl_handle_end
         then decls[j := decl\<lparr>config :=
                Some \<lparr>cccd_handle = config_handle, cccd_value = config_value\<rparr>\<rparr>]
         else decls)"

definition ccc_attach ::
  "uint16_t \<Rightarrow> uint16_t \<Rightarrow> GATTCharacterisicsDecl list \<Rightarrow> GATTCharacterisicsDecl list" where
  "ccc_attach config_handle config_value decls =
     fold (\<lambda>j ds. ccc_attach_at config_handle config_value ds j) [0..<length decls] decls"

text \<open>The body of the loop over the elements of a response, for element \<open>i\<close>.\<close>

definition ccc_element ::
  "AttPDUMsg \<Rightarrow> int \<Rightarrow> GATTCharacterisicsDecl list \<Rightarrow> error + GATTCharacterisicsDecl list" where
  "ccc_element p i decls =
     and_then (getElementPDUOffset p i) (\<lambda>ePDUOffset.
     and_then (getElementTotalSize p) (\<lambda>esz.
       if 4 = esz then
         and_then (pdu_get_uint16 (pdu p) ePDUOffset) (\<lambda>config_handle.
         and_then (pdu_get_uint16 (pdu p) (ePDUOffset + 2)) (\<lambda>config_value.
           Inr (ccc_attach config_handle config_value decls)))
       else Inr decls))"

fun ccc_elements ::
  "AttPDUMsg \<Rightarrow> nat list \<Rightarrow> GATTCharacterisicsDecl list
     \<Rightarrow> (error + unit) \<times> GATTCharacterisicsDecl list" where
  "ccc_elements p [] decls = (Inr (), decls)"
| "ccc_elements p (i # is) decls =
     (case ccc_element p (int i) decls of
        Inl e \<Rightarrow> (Inl e, decls)
      | Inr decls' \<Rightarrow> ccc_elements p is decls')"

text \<open>
  One pass of the \<^verbatim>\<open>while(!done)\<close> loop of \<^verbatim>\<open>discoverClientCharacteristicConfig\<close> for
  the service with declaration \<open>sd\<close>: the outcome (the new \<^verbatim>\<open>done\<close>), the local
  \<^verbatim>\<open>handle\<close> (here \<open>hnd\<close>), the service's declaration list and the engine.
\<close>

definition ccc_body ::
  "GATTUUIDHandleRange \<Rightarrow> uint16_t \<Rightarrow> GATTCharacterisicsDecl list \<Rightarrow> GATTHandler
     \<Rightarrow> bool result \<times> uint16_t \<times> GATTCharacterisicsDecl list \<times> GATTHandler" where
  "ccc_body sd hnd decls h =
     (case send (AttReadByNTypeReq False hnd (endHandle sd) CLIENT_CHARACTERISTIC_CONFIGURATION) h of
        (Throw e, h1) \<Rightarrow> (Throw e, hnd, decls, h1)
      | (Block, h1) \<Rightarrow> (Block, hnd, decls, h1)
      | (Return sendRes, h1) \<Rightarrow>
          if sendRes then
            (case receiveNext h1 of
               (Throw e, h2) \<Rightarrow> (Throw e, hnd, decls, h2)
             | (Block, h2) \<Rightarrow> (Block, hnd, decls, h2)
             | (Return p, h2) \<Rightarrow>
                 if opcode p = ATT_READ_BY_TYPE_RSP then
                   (case getElementCount p of
                      Inl e \<Rightarrow> (Throw e, hnd, decls, h2)
                    | Inr count \<Rightarrow>
                        (case ccc_elements p [0..<nat count] decls of
                           (Inl e, decls') \<Rightarrow> (Throw e, hnd, decls', h2)
                         | (Inr _, decls') \<Rightarrow>
                             (case getElementHandle p (count - 1) of
                                Inl e \<Rightarrow> (Throw e, hnd, decls', h2)
                              | Inr eh \<Rightarrow>
                                  if eh < endHandle sd then (Return False, eh + 1, decls', h2)
                                  else (Return True, eh, decls', h2))))
                 else if opcode p = ATT_ERROR_RSP then (Return True, hnd, decls, h2)
                 else (Return True, hnd, decls, h2))
          else (Return True, hnd, decls, h1))"

function ccc_loop ::
  "GATTUUIDHandleRange \<Rightarrow> uint16_t \<Rightarrow> GATTCharacterisicsDecl list \<Rightarrow> GATTHandler
     \<Rightarrow> unit result \<times> GATTCharacterisicsDecl list \<times> GATTHandler" where
  "ccc_loop sd hnd decls h =
     (case ccc_body sd hnd decls h of
        (Return done, hnd', decls', h') \<Rightarrow>
          if done then (Return (), decls', h') else ccc_loop sd hnd' decls' h'
      | (Throw e, hnd', decls', h') \<Rightarrow> (Throw e, decls', h')
      | (Block, hnd', decls', h') \<Rightarrow> (Block, decls', h'))"
  by pat_completeness auto
termination
  by (relation "measure (\<lambda>(sd, hnd, decls, h). length (attPDURing h))")
     (auto simp: ccc_body_def send_def receiveNext_def l2cap_write_def Let_def
        split: prod.splits result.splits if_splits sum.splits list.splits)

declare ccc_loop.simps [simp del]

text \<open>
  \<^verbatim>\<open>GATTHandler::discoverClientCharacteristicConfig(service)\<close>: the value returned and
  the service, whose declarations the loop updates in place.
\<close>

definition discoverClientCharacteristicConfig ::
  "GATTPrimaryService \<Rightarrow> GATTHandler \<Rightarrow> bool result \<times> GATTPrimaryService \<times> GATTHandler" where
  "discoverClientCharacteristicConfig service h =
     (case ccc_loop (srv_declaration service) (startHandle (srv_declaration service))
             (characteristicDeclList service) h of
        (Return _, decls, h') \<Rightarrow>
          (Return (0 < length decls), service\<lparr>characteristicDeclList := decls\<rparr>, h')
      | (Throw e, decls, h') \<Rightarrow> (Throw e, service\<lparr>characteristicDeclList := decls\<rparr>, h')
      | (Block, decls, h') \<Rightarrow> (Block, service\<lparr>characteristicDeclList := decls\<rparr>, h'))"

subsection \<open>Reading a characteristic value\<close>

text \<open>
  One pass of the \<^verbatim>\<open>while(!done)\<close> loop of \<^verbatim>\<open>readCharacteristicValue\<close> after the two
  \<^verbatim>\<open>break\<close> tests at its head: the outcome (the new \<^verbatim>\<open>done\<close>), \<^verbatim>\<open>offset\<close>, \<^verbatim>\<open>res\<close> and the
  engine.  The offset of a blob request is the \<^verbatim>\<open>int\<close> converted to 16 bits.
\<close>

definition rcv_body ::
  "GATTCharacterisicsDecl \<Rightarrow> int \<Rightarrow> octets \<Rightarrow> GATTHandler
     \<Rightarrow> bool result \<times> int \<times> octets \<times> GATTHandler" where
  "rcv_body decl offset res h =
     (case (if 0 = offset then send (AttReadReq (handle decl)) h
            else send (AttReadBlobReq (handle decl) (of_int offset)) h) of
        (Throw e, h1) \<Rightarrow> (Throw e, offset, res, h1)
      | (Block, h1) \<Rightarrow> (Block, offset, res, h1)
      | (Return sendRes, h1) \<Rightarrow>
          if sendRes then
            (case receiveNext h1 of
               (Throw e, h2) \<Rightarrow> (Throw e, offset, res, h2)
             | (Block, h2) \<Rightarrow> (Block, offset, res, h2)
             | (Return p, h2) \<Rightarrow>
                 if opcode p = ATT_READ_RSP then
                   (case getValue p of
                      Inl e \<Rightarrow> (Throw e, offset, res, h2)
                    | Inr v \<Rightarrow>
                        (Return (getPDUValueSize p < getMaxPDUValueSize (uint (usedMTU h2))),
                         offset + int (length v), res @ v, h2))
                 else if opcode p = ATT_READ_BLOB_RSP then
                   (case getValue p of
                      Inl e \<Rightarrow> (Throw e, offset, res, h2)
                    | Inr v \<Rightarrow>
                        if 0 = length v then (Return True, offset, res, h2)
                        else
                          (Return (getPDUValueSize p < getMaxPDUValueSize (uint (usedMTU h2))),
                           offset + int (length v), res @ v, h2))
                 else if opcode p = ATT_ERROR_RSP then
                   (case getErrorCode p of
                      Inl e \<Rightarrow> (Throw e, offset, res, h2)
                    | Inr c \<Rightarrow>
                        if ATTRIBUTE_NOT_LONG = c then (Return True, offset, res, h2)
                        else (Return True, offset, res, h2))
                 else (Return True, offset, res, h2))
          else (Return True, offset, res, h1))"

text \<open>The two \<^verbatim>\<open>break\<close> tests at the head of the loop.\<close>

definition rcv_break :: "int \<Rightarrow> int \<Rightarrow> bool" where
  "rcv_break expectedLength offset =
     ((0 < expectedLength \<and> expectedLength \<le> offset) \<or> (0 = expectedLength \<and> 0 < offset))"

function rcv_loop ::
  "GATTCharacterisicsDecl \<Rightarrow> int \<Rightarrow> int \<Rightarrow> octets \<Rightarrow> GATTHandler
     \<Rightarrow> unit result \<times> int \<times> octets \<times> GATTHandler" where
  "rcv_loop decl expectedLength offset res h =
     (if rcv_break expectedLength offset then (Return (), offset, res, h)
      else (case rcv_body decl offset res h of
              (Return done, offset', res', h') \<Rightarrow>
                if done then (Return (), offset', res', h')
                else rcv_loop decl expectedLength offset' res' h'
            | (Throw e, offset', res', h') \<Rightarrow> (Throw e, offset', res', h')
            | (Block, offset', res', h') \<Rightarrow> (Block, offset', res', h')))"
  by pat_completeness auto
termination
  by (relation "measure (\<lambda>(decl, expectedLength, offset, res, h). length (attPDURing h))")
     (auto simp: rcv_body_def send_def receiveNext_def l2cap_write_def Let_def
        split: prod.splits result.splits if_splits sum.splits list.splits)

declare rcv_loop.simps [simp del]

text \<open>
  \<^verbatim>\<open>GATTHandler::readCharacteristicValue(decl, res, expectedLength)\<close>: the value
  returned and \<open>res\<close>.
\<close>

definition readCharacteristicValue ::
  "GATTCharacterisicsDecl \<Rightarrow> octets \<Rightarrow> int \<Rightarrow> GATTHandler
     \<Rightarrow> bool result \<times> octets \<times> GATTHandler" where
  "readCharacteristicValue decl res expectedLength h =
     (case rcv_loop decl expectedLength 0 res h of
        (Return _, offset, res', h') \<Rightarrow> (Return (offset > 0), res', h')
      | (Throw e, offset, res', h') \<Rightarrow> (Throw e, res', h')
      | (Block, offset, res', h') \<Rightarrow> (Block, res', h'))"

subsection \<open>An engine for the evaluations\<close>

text \<open>
  A disconnected engine with both MTUs at 23, no listener and no service, over a
  channel that connects on request and writes every PDU in full; \<open>ring\<close> is what the
  peer will answer.
\<close>

definition example_l2cap :: "(nat \<Rightarrow> int) \<Rightarrow> L2CAPComm" where
  "example_l2cap wr =
     \<lparr>l2_isOpen = False, l2_state = Disconnected, l2_on_connect = (Connected, True),
      l2_write_result = wr, l2_writes = 0\<rparr>"

definition example_handler :: "(nat \<Rightarrow> int) \<Rightarrow> AttPDUMsg list \<Rightarrow> GATTHandler" where
  "example_handler wr ring =
     \<lparr>state = Disconnected, l2cap = example_l2cap wr, serverMTU = 23, usedMTU = 23,
      gatt_services = [], attPDURing = ring, gattNotificationListener = None,
      gattIndicationListener = None, sendIndicationConfirmation = False, trace = []\<rparr>"

text \<open>The same engine once connected.\<close>

definition example_connected :: "(nat \<Rightarrow> int) \<Rightarrow> AttPDUMsg list \<Rightarrow> GATTHandler" where
  "example_connected wr ring =
     (example_handler wr ring)
       \<lparr>state := Connected,
        l2cap := (example_l2cap wr)\<lparr>l2_isOpen := True, l2_state := Connected\<rparr>\<rparr>"

text \<open>
  A connected engine with the indication listener 7 installed and confirmations
  enabled, and an indication for the handle \<open>0x0010\<close>.
\<close>

definition example_listening :: GATTHandler where
  "example_listening =
     (example_connected (\<lambda>n. 1) [])
       \<lparr>gattIndicationListener := Some 7, sendIndicationConfirmation := True\<rparr>"

definition example_indication :: AttPDUMsg where
  "example_indication = \<lparr>opcode = ATT_HANDLE_VALUE_IND, pdu = [0x1D, 0x10, 0x00, 0x2A]\<rparr>"

section \<open>The discovery responses in the spec's words\<close>

text \<open>
  The spec describes \<^verbatim>\<open>ATT_READ_BY_TYPE_RSP\<close> and \<^verbatim>\<open>ATT_READ_BY_GROUP_TYPE_RSP\<close> as a
  length byte and an array of elements of that size.  These definitions follow that
  description, not the code: element \<open>i\<close> is a slice of the PDU, and a group element
  is a start handle, an end handle and a UUID filling the rest.  The theorems compare
  them with what the procedures compute by offsets.
\<close>

definition element_total_size :: "AttPDUMsg \<Rightarrow> nat" where
  "element_total_size p = unat (pdu p ! 1)"

definition element_count :: "AttPDUMsg \<Rightarrow> nat" where
  "element_count p = (length (pdu p) - 2) div element_total_size p"

definition rsp_element :: "AttPDUMsg \<Rightarrow> nat \<Rightarrow> octets" where
  "rsp_element p i = take (element_total_size p) (drop (2 + i * element_total_size p) (pdu p))"

definition rsp_elements :: "AttPDUMsg \<Rightarrow> octets list" where
  "rsp_elements p = map (rsp_element p) [0..<element_count p]"

definition le16 :: "octets \<Rightarrow> uint16_t" where
  "le16 bs = of_nat (le_value (take 2 bs))"

definition uuid_of_octets :: "octets \<Rightarrow> uuid_t" where
  "uuid_of_octets bs =
     (if length bs = 2 then uuid16_t (of_nat (le_value bs))
      else if length bs = 4 then uuid32_t (of_nat (le_value bs))
      else uuid128_t (of_nat (le_value bs)))"

definition service_of_element :: "octets \<Rightarrow> GATTPrimaryService" where
  "service_of_element el =
     \<lparr>srv_declaration =
        \<lparr>range_type = Service, startHandle = le16 el, endHandle = le16 (drop 2 el),
         range_uuid = uuid_of_octets (drop 4 el)\<rparr>,
      characteristicDeclList = []\<rparr>"

text \<open>
  A group response with at least one element whose UUIDs have one of the three
  widths, and the end handle of its last element.
\<close>

definition wf_group_rsp :: "AttPDUMsg \<Rightarrow> bool" where
  "wf_group_rsp p =
     (2 \<le> length (pdu p) \<and> element_total_size p \<in> {6, 8, 20} \<and> 1 \<le> element_count p)"

definition last_end_handle :: "AttPDUMsg \<Rightarrow> uint16_t" where
  "last_end_handle p = le16 (drop 2 (last (rsp_elements p)))"

text \<open>
  The claim's words for the end of primary service discovery: the last element's end
  handle is \<open>0xFFFF\<close>, or the response is an \<^verbatim>\<open>ATT_ERROR_RSP\<close>.
\<close>

definition dps_claimed_finish :: "AttPDUMsg \<Rightarrow> bool" where
  "dps_claimed_finish p =
     (opcode p = ATT_ERROR_RSP \<or>
      (opcode p = ATT_READ_BY_GROUP_TYPE_RSP \<and> last_end_handle p = 0xffff))"

text \<open>
  The spec's discovery scenario: one group response with the services \<open>0x1800\<close> on
  the handles 1 to 7 and \<open>0x180A\<close> on 8 to 11, then an error response.
\<close>

definition example_group_rsp :: AttPDUMsg where
  "example_group_rsp =
     \<lparr>opcode = ATT_READ_BY_GROUP_TYPE_RSP,
      pdu = [0x11, 0x06, 0x01, 0x00, 0x07, 0x00, 0x00, 0x18,
                         0x08, 0x00, 0x0B, 0x00, 0x0A, 0x18]\<rparr>"

definition example_error_rsp :: AttPDUMsg where
  "example_error_rsp = \<lparr>opcode = ATT_ERROR_RSP, pdu = [0x01, 0x10, 0x0C, 0x00, 0x0A]\<rparr>"

section \<open>The long read in the spec's words\<close>

text \<open>
  The value that a response contributes to the output: the payload of an
  \<^verbatim>\<open>ATT_READ_RSP\<close> or an \<^verbatim>\<open>ATT_READ_BLOB_RSP\<close>, nothing for any other PDU.
\<close>

definition rcv_value :: "AttPDUMsg \<Rightarrow> octets" where
  "rcv_value p =
     (if opcode p = ATT_READ_RSP \<or> opcode p = ATT_READ_BLOB_RSP then drop 1 (pdu p) else [])"

text \<open>
  The claim's five reasons to terminate, after a request that was answered by \<open>p\<close>
  with the offset now at \<open>offset\<close>: (i) the expected length is reached, (ii) no length
  was expected and one request has completed, (iii) the payload is shorter than
  \<open>used_mtu - 1\<close>, (iv) a blob response is empty, (v) an error response says
  \<^verbatim>\<open>AttributeNotLong\<close>.
\<close>

definition rcv_claimed_stop :: "int \<Rightarrow> int \<Rightarrow> int \<Rightarrow> AttPDUMsg \<Rightarrow> bool" where
  "rcv_claimed_stop mtu expectedLength offset p =
     ((0 < expectedLength \<and> expectedLength \<le> offset) \<or>
      expectedLength = 0 \<or>
      int (length (pdu p)) - 1 < mtu - 1 \<or>
      (opcode p = ATT_READ_BLOB_RSP \<and> drop 1 (pdu p) = []) \<or>
      (opcode p = ATT_ERROR_RSP \<and> getErrorCode p = Inr ATTRIBUTE_NOT_LONG))"

text \<open>
  PDUs for the evaluations: an unexpected reply that fills the default MTU of 23, a
  characteristic declaration, and a read response and a blob response on an MTU of 5.
\<close>

definition example_unexpected_rsp :: AttPDUMsg where
  "example_unexpected_rsp =
     \<lparr>opcode = ATT_READ_BY_TYPE_RSP,
      pdu = [0x09, 0x07, 0x02, 0x00, 0x0A, 0x03, 0x00, 0x00, 0x2A,
                         0x04, 0x00, 0x02, 0x05, 0x00, 0x01, 0x2A,
                         0x06, 0x00, 0x02, 0x07, 0x00, 0x04, 0x2A]\<rparr>"

definition example_decl :: GATTCharacterisicsDecl where
  "example_decl =
     \<lparr>service_uuid = uuid16_t 0x1800, service_handle = 0x0002, service_handle_end = 0x0007,
      properties = 0x0A, handle = 0x0003, char_uuid = uuid16_t 0x2A00, config = None\<rparr>"

definition example_read_rsp :: AttPDUMsg where
  "example_read_rsp = \<lparr>opcode = ATT_READ_RSP, pdu = [0x0B, 0x41, 0x42, 0x43, 0x44]\<rparr>"

definition example_blob_rsp :: AttPDUMsg where
  "example_blob_rsp = \<lparr>opcode = ATT_READ_BLOB_RSP, pdu = [0x0D, 0x45, 0x46]\<rparr>"

text \<open>A connected engine on an MTU of 5 whose peer answers a read with six octets.\<close>

definition example_reading :: GATTHandler where
  "example_reading =
     (example_connected (\<lambda>n. if n = 0 then 3 else 5) [example_read_rsp, example_blob_rsp])
       \<lparr>usedMTU := 5\<rparr>"

section \<open>Client characteristic configurations in the spec's words\<close>

text \<open>
  The configuration that an element of four octets carries, the configurations that
  a response can attach (only a \<^verbatim>\<open>ATT_READ_BY_TYPE_RSP\<close> with elements of total size
  4 has any), and the upper end of the interval of declaration \<open>j\<close>: the next
  declaration's value handle, or the service's end handle as the last declaration
  records it.
\<close>

definition cccd_of_element :: "octets \<Rightarrow> GATTClientCharacteristicConfigDecl" where
  "cccd_of_element el = \<lparr>cccd_handle = le16 el, cccd_value = le16 (drop 2 el)\<rparr>"

definition cccd_candidates :: "AttPDUMsg \<Rightarrow> GATTClientCharacteristicConfigDecl list" where
  "cccd_candidates p =
     (if opcode p = ATT_READ_BY_TYPE_RSP \<and> element_total_size p = 4
      then map cccd_of_element (rsp_elements p) else [])"

definition decl_handle_bound :: "GATTCharacterisicsDecl list \<Rightarrow> nat \<Rightarrow> uint16_t" where
  "decl_handle_bound ds j =
     (if j + 1 < length ds then handle (ds ! (j + 1)) else service_handle_end (ds ! j))"

text \<open>
  The claim's invariant between the declarations before (\<open>ds\<close>) and after (\<open>ds'\<close>) a
  discovery over the responses \<open>ring\<close>: the list keeps its length and every
  declaration its handles, and a declaration either keeps its configuration or has
  one attached that lies in its interval and comes from an element of size 4.
\<close>

definition cccd_attached ::
  "AttPDUMsg list \<Rightarrow> GATTCharacterisicsDecl list \<Rightarrow> GATTCharacterisicsDecl list \<Rightarrow> bool" where
  "cccd_attached ring ds ds' =
     (length ds' = length ds \<and>
      (\<forall>j < length ds.
         handle (ds' ! j) = handle (ds ! j) \<and>
         service_handle_end (ds' ! j) = service_handle_end (ds ! j) \<and>
         (config (ds' ! j) = config (ds ! j) \<or>
          (\<exists>c. config (ds' ! j) = Some c \<and>
                handle (ds' ! j) < cccd_handle c \<and>
                cccd_handle c \<le> decl_handle_bound ds' j \<and>
                (\<exists>p \<in> set ring. c \<in> set (cccd_candidates p))))))"

text \<open>
  A service on the handles 1 to 9 with characteristic values at 3 and 6, and a
  response carrying the configuration at handle 4 with value 1.
\<close>

definition example_service :: GATTPrimaryService where
  "example_service =
     \<lparr>srv_declaration =
        \<lparr>range_type = Service, startHandle = 0x0001, endHandle = 0x0009,
         range_uuid = uuid16_t 0x1800\<rparr>,
      characteristicDeclList =
        [example_decl\<lparr>service_handle_end := 0x0009\<rparr>,
         example_decl\<lparr>service_handle := 0x0005, service_handle_end := 0x0009,
                      handle := 0x0006, char_uuid := uuid16_t 0x2A01\<rparr>]\<rparr>"

definition example_ccc_rsp :: AttPDUMsg where
  "example_ccc_rsp =
     \<lparr>opcode = ATT_READ_BY_TYPE_RSP, pdu = [0x09, 0x04, 0x04, 0x00, 0x01, 0x00]\<rparr>"

chapter \<open>Verification\<close>

section \<open>EUI-48 round trip\<close>

lemma isxdigit_iff:
  "isxdigit c \<longleftrightarrow> c = CHR ''0'' \<or> c = CHR ''1'' \<or> c = CHR ''2'' \<or> c = CHR ''3'' \<or> c = CHR ''4''
    \<or> c = CHR ''5'' \<or> c = CHR ''6'' \<or> c = CHR ''7'' \<or> c = CHR ''8'' \<or> c = CHR ''9''
    \<or> c = CHR ''a'' \<or> c = CHR ''b'' \<or> c = CHR ''c'' \<or> c = CHR ''d'' \<or> c = CHR ''e'' \<or> c = CHR ''f''
    \<or> c = CHR ''A'' \<or> c = CHR ''B'' \<or> c = CHR ''C'' \<or> c = CHR ''D'' \<or> c = CHR ''E'' \<or> c = CHR ''F''"
  unfolding isxdigit_def by simp

lemma isxdigit_hexval:
  "isxdigit c \<Longrightarrow> \<exists>d. hexval c = Some d \<and> d < 16 \<and> hex_upper_digit d = toupper c"
  unfolding isxdigit_iff
  by (elim disjE; simp add: hexval_def hex_upper_digit_def toupper_def)

lemma isxdigit_plain:
  "isxdigit c \<Longrightarrow> \<not> isspace c \<and> c \<noteq> CHR ''-'' \<and> c \<noteq> CHR ''+'' \<and> c \<noteq> CHR ''x'' \<and> c \<noteq> CHR ''X''"
  unfolding isxdigit_iff
  by (elim disjE; simp add: isspace_def)

lemma toupper_colon: "toupper (CHR '':'') = CHR '':''"
  by (simp add: toupper_def)

lemma hex_upper_digit_0: "hex_upper_digit 0 = CHR ''0''"
  by (simp add: hex_upper_digit_def)

lemma unat_of_nat_u8: "n < 256 \<Longrightarrow> unat (of_nat n :: uint8_t) = n"
  by (simp add: unat_of_nat del: of_nat_add of_nat_mult)

lemma hex_upper_small: "d < 16 \<Longrightarrow> 0 < d \<Longrightarrow> hex_upper d = [hex_upper_digit d]"
  by (subst hex_upper.simps) (simp add: hex_upper.simps [of 0])

lemma printf_byte:
  assumes "h < 16" "l < 16"
  shows "printf_2_2X (16 * h + l) = [hex_upper_digit h, hex_upper_digit l]"
proof (cases "h = 0")
  case True
  show ?thesis
  proof (cases "l = 0")
    case True
    with \<open>h = 0\<close> show ?thesis
      by (simp add: printf_2_2X_def hex_upper.simps [of 0] hex_upper_digit_def numeral_2_eq_2)
  next
    case False
    with \<open>h = 0\<close> assms show ?thesis
      by (simp add: printf_2_2X_def hex_upper_small hex_upper_digit_0)
  qed
next
  case False
  with assms have "hex_upper (16 * h + l) = [hex_upper_digit h, hex_upper_digit l]"
    by (subst hex_upper.simps) (simp add: hex_upper_small)
  then show ?thesis by (simp add: printf_2_2X_def)
qed

lemma scan_pair:
  assumes a: "isxdigit a" and b: "isxdigit b"
  shows "\<exists>h l. h < 16 \<and> l < 16 \<and> hex_upper_digit h = toupper a \<and> hex_upper_digit l = toupper b
           \<and> scan_hhx 2 (a # b # r) = Some (of_nat (16 * h + l), r)"
proof -
  from isxdigit_hexval [OF a] obtain h where h: "hexval a = Some h" "h < 16" "hex_upper_digit h = toupper a"
    by blast
  from isxdigit_hexval [OF b] obtain l where l: "hexval b = Some l" "l < 16" "hex_upper_digit l = toupper b"
    by blast
  have "scan_hex_digits 2 (a # b # r) = ([h, l], r)"
    using h l by (simp add: numeral_2_eq_2)
  then have "scan_hhx 2 (a # b # r) = Some (of_nat (16 * h + l), r)"
    using isxdigit_plain [OF a] isxdigit_plain [OF b]
    by (simp add: scan_hhx_def)
  with h l show ?thesis by blast
qed

lemma byte_roundtrip:
  assumes a: "isxdigit a" and b: "isxdigit b"
  shows "\<exists>v. scan_hhx 2 (a # b # r) = Some (v, r) \<and> printf_2_2X (unat v) = [toupper a, toupper b]"
proof -
  from scan_pair [OF a b, of r] obtain h l where hl: "h < 16" "l < 16"
     "hex_upper_digit h = toupper a" "hex_upper_digit l = toupper b"
     "scan_hhx 2 (a # b # r) = Some (of_nat (16 * h + l), r)"
    by blast
  have "16 * h + l < 256" using hl by simp
  then have "unat (of_nat (16 * h + l) :: uint8_t) = 16 * h + l"
    by (rule unat_of_nat_u8)
  with hl printf_byte [of h l] show ?thesis by simp
qed

lemma upt17: "[0..<17] = [0,1,2,3,4,5,6,7,8,9,10,11,12,13,14,15,16::nat]"
  by (simp add: upt_rec)

lemma list17:
  assumes "length (s :: 'a list) = 17"
  shows "s = [s!0, s!1, s!2, s!3, s!4, s!5, s!6, s!7, s!8, s!9, s!10, s!11, s!12, s!13, s!14, s!15, s!16]"
proof -
  have "s = map ((!) s) [0..<length s]" by (simp add: map_nth)
  also have "\<dots> = map ((!) s) [0..<17]" using assms by simp
  also have "\<dots> = [s!0, s!1, s!2, s!3, s!4, s!5, s!6, s!7, s!8, s!9, s!10, s!11, s!12, s!13, s!14, s!15, s!16]"
    unfolding upt17 by simp
  finally show ?thesis .
qed

lemma sscanf_step:
  assumes "scan_hhx 2 (a # b # CHR '':'' # r) = Some (v, CHR '':'' # r)"
  shows "sscanf_eui48 (Suc (Suc n)) (a # b # CHR '':'' # r) = v # sscanf_eui48 (Suc n) r"
  using assms by simp

lemma sscanf_last:
  assumes "scan_hhx 2 [a, b] = Some (v, [])"
  shows "sscanf_eui48 (Suc 0) [a, b] = [v]"
  using assms by simp

lemma roundtrip_list:
  assumes x: "isxdigit c0" "isxdigit c1" "isxdigit c3" "isxdigit c4" "isxdigit c6" "isxdigit c7"
      "isxdigit c9" "isxdigit c10" "isxdigit c12" "isxdigit c13" "isxdigit c15" "isxdigit c16"
  shows "\<exists>a. EUI48_of_string [c0, c1, CHR '':'', c3, c4, CHR '':'', c6, c7, CHR '':'', c9, c10,
                  CHR '':'', c12, c13, CHR '':'', c15, c16] = Inr a
           \<and> toString a = Inr [toupper c0, toupper c1, CHR '':'', toupper c3, toupper c4, CHR '':'',
                  toupper c6, toupper c7, CHR '':'', toupper c9, toupper c10, CHR '':'',
                  toupper c12, toupper c13, CHR '':'', toupper c15, toupper c16]"
proof -
  let ?r4 = "[c15, c16]"
  let ?r3 = "c12 # c13 # CHR '':'' # ?r4"
  let ?r2 = "c9 # c10 # CHR '':'' # ?r3"
  let ?r1 = "c6 # c7 # CHR '':'' # ?r2"
  let ?r0 = "c3 # c4 # CHR '':'' # ?r1"
  from byte_roundtrip [OF x(1) x(2)] obtain v5
    where v5: "scan_hhx 2 (c0 # c1 # CHR '':'' # ?r0) = Some (v5, CHR '':'' # ?r0)"
      "printf_2_2X (unat v5) = [toupper c0, toupper c1]" by blast
  from byte_roundtrip [OF x(3) x(4)] obtain v4
    where v4: "scan_hhx 2 (c3 # c4 # CHR '':'' # ?r1) = Some (v4, CHR '':'' # ?r1)"
      "printf_2_2X (unat v4) = [toupper c3, toupper c4]" by blast
  from byte_roundtrip [OF x(5) x(6)] obtain v3
    where v3: "scan_hhx 2 (c6 # c7 # CHR '':'' # ?r2) = Some (v3, CHR '':'' # ?r2)"
      "printf_2_2X (unat v3) = [toupper c6, toupper c7]" by blast
  from byte_roundtrip [OF x(7) x(8)] obtain v2
    where v2: "scan_hhx 2 (c9 # c10 # CHR '':'' # ?r3) = Some (v2, CHR '':'' # ?r3)"
      "printf_2_2X (unat v2) = [toupper c9, toupper c10]" by blast
  from byte_roundtrip [OF x(9) x(10)] obtain v1
    where v1: "scan_hhx 2 (c12 # c13 # CHR '':'' # ?r4) = Some (v1, CHR '':'' # ?r4)"
      "printf_2_2X (unat v1) = [toupper c12, toupper c13]" by blast
  from byte_roundtrip [OF x(11) x(12)] obtain v0
    where v0: "scan_hhx 2 [c15, c16] = Some (v0, [])"
      "printf_2_2X (unat v0) = [toupper c15, toupper c16]" by blast
  have six: "(6::nat) = Suc (Suc (Suc (Suc (Suc (Suc 0)))))" by simp
  have "sscanf_eui48 6 (c0 # c1 # CHR '':'' # ?r0) = [v5, v4, v3, v2, v1, v0]"
    unfolding six
    by (simp only: sscanf_step [OF v5(1)] sscanf_step [OF v4(1)] sscanf_step [OF v3(1)]
          sscanf_step [OF v2(1)] sscanf_step [OF v1(1)] sscanf_last [OF v0(1)])
  then have "EUI48_of_string (c0 # c1 # CHR '':'' # ?r0) = Inr (EUI48 v0 v1 v2 v3 v4 v5)"
    by (simp add: EUI48_of_string_def)
  moreover have "toString (EUI48 v0 v1 v2 v3 v4 v5) =
      Inr [toupper c0, toupper c1, CHR '':'', toupper c3, toupper c4, CHR '':'',
                  toupper c6, toupper c7, CHR '':'', toupper c9, toupper c10, CHR '':'',
                  toupper c12, toupper c13, CHR '':'', toupper c15, toupper c16]"
    by (simp add: toString_def v5(2) v4(2) v3(2) v2(2) v1(2) v0(2))
  ultimately show ?thesis by simp
qed

text \<open>
  Claim C8.  For every valid EUI-48 string \<open>s\<close> (17 characters, hexadecimal pairs
  separated by colons), constructing \<^verbatim>\<open>EUI48(s)\<close> succeeds and \<^verbatim>\<open>toString()\<close> of the
  result is \<open>s\<close> converted to upper case.
\<close>

theorem eui48_roundtrip:
  assumes "valid_eui48_string s"
  shows "\<exists>a. EUI48_of_string s = Inr a \<and> toString a = Inr (toUpperCase s)"
proof -
  from assms have len: "length s = 17" by (simp add: valid_eui48_string_def)
  from assms have colons: "s ! 2 = CHR '':''" "s ! 5 = CHR '':''" "s ! 8 = CHR '':''"
      "s ! 11 = CHR '':''" "s ! 14 = CHR '':''"
    and x: "isxdigit (s ! 0)" "isxdigit (s ! 1)" "isxdigit (s ! 3)" "isxdigit (s ! 4)"
      "isxdigit (s ! 6)" "isxdigit (s ! 7)" "isxdigit (s ! 9)" "isxdigit (s ! 10)"
      "isxdigit (s ! 12)" "isxdigit (s ! 13)" "isxdigit (s ! 15)" "isxdigit (s ! 16)"
    unfolding valid_eui48_string_def upt17 by simp_all
  have s: "s = [s!0, s!1, CHR '':'', s!3, s!4, CHR '':'', s!6, s!7, CHR '':'', s!9, s!10,
                  CHR '':'', s!12, s!13, CHR '':'', s!15, s!16]" (is "s = ?L")
    using list17 [OF len] colons by simp
  have up: "toUpperCase ?L = [toupper (s!0), toupper (s!1), CHR '':'', toupper (s!3), toupper (s!4), CHR '':'',
                  toupper (s!6), toupper (s!7), CHR '':'', toupper (s!9), toupper (s!10), CHR '':'',
                  toupper (s!12), toupper (s!13), CHR '':'', toupper (s!15), toupper (s!16)]"
    by (simp add: toUpperCase_def toupper_colon)
  from roundtrip_list [OF x] obtain a where "EUI48_of_string ?L = Inr a" "toString a = Inr (toUpperCase ?L)"
    unfolding up by blast
  then show ?thesis using s by metis
qed

text \<open>The law at the address \<^verbatim>\<open>01:23:45:67:89:aB\<close>.\<close>

theorem eui48_roundtrip_witness:
  "valid_eui48_string ''01:23:45:67:89:aB'' \<and>
   (\<exists>a. EUI48_of_string ''01:23:45:67:89:aB'' = Inr a \<and> toString a = Inr ''01:23:45:67:89:AB'')"
proof -
  have v: "valid_eui48_string ''01:23:45:67:89:aB''"
    by (simp add: valid_eui48_string_def upt17 isxdigit_def)
  have u: "toUpperCase ''01:23:45:67:89:aB'' = ''01:23:45:67:89:AB''"
    by (simp add: toUpperCase_def toupper_def)
  from eui48_roundtrip [OF v] u v show ?thesis by simp
qed
section \<open>The EIR decoder\<close>

lemma next_data_elem_step:
  assumes "next_data_elem e data offset sz = (ret, e')"
  shows "ret \<le> 0 \<or> (offset < sz \<and> offset + 2 \<le> ret \<and> ret \<le> sz + 1)"
proof -
  have pos: "1 \<le> uint len" if "len \<noteq> 0" for len :: uint8_t
  proof -
    have "uint len \<noteq> 0" using that by (simp add: uint_0_iff)
    moreover have "0 \<le> uint len" by simp
    ultimately show ?thesis by linarith
  qed
  show ?thesis
    using assms pos [of "data offset"]
    by (auto simp: next_data_elem_def ENOENT_def Let_def split: if_splits)
qed

lemma read_data_loop_count:
  "read_data_loop G data sz offset count e r = (c, r') \<Longrightarrow>
     count \<le> c \<and> (c = count \<or> 2 * (c - count) \<le> sz + 1 - offset)"
proof (induction G data sz offset count e r rule: read_data_loop.induct)
  case (1 G data sz offset count e r)
  obtain ret e' where nd: "next_data_elem e data offset sz = (ret, e')"
    by (cases "next_data_elem e data offset sz")
  show ?case
  proof (cases "0 < ret")
    case False
    with "1.prems" nd show ?thesis
      by (subst (asm) read_data_loop.simps) simp
  next
    case True
    with "1.prems" nd
    have rec: "read_data_loop G data sz ret (count + 1) e' (read_data_switch G data e' r) = (c, r')"
      by (subst (asm) read_data_loop.simps) simp
    from "1.IH" [OF nd [symmetric] True rec]
    have ih: "count + 1 \<le> c \<and> (c = count + 1 \<or> 2 * (c - (count + 1)) \<le> sz + 1 - ret)" .
    from next_data_elem_step [OF nd] True
    have "offset < sz" "offset + 2 \<le> ret" "ret \<le> sz + 1" by auto
    with ih show ?thesis by auto
  qed
qed

lemma read_data_loop_first:
  assumes "offset < sz" "data offset \<noteq> 0" "uint (data offset) + offset \<le> sz" "0 \<le> offset"
  shows "count + 1 \<le> fst (read_data_loop G data sz offset count e r)"
proof -
  let ?e' = "(data offset - 1, data (offset + 1), offset + 2)"
  let ?ret = "offset + 1 + uint (data offset)"
  have nd: "next_data_elem e data offset sz = (?ret, ?e')"
    using assms by (simp add: next_data_elem_def Let_def)
  have pos: "0 < ?ret" using assms(4) by (simp add: add_pos_nonneg)
  have "read_data_loop G data sz offset count e r =
      read_data_loop G data sz ?ret (count + 1) ?e' (read_data_switch G data ?e' r)"
    using nd pos by (subst read_data_loop.simps) simp
  moreover have "count + 1 \<le>
      fst (read_data_loop G data sz ?ret (count + 1) ?e' (read_data_switch G data ?e' r))"
    using read_data_loop_count [OF prod.collapse [symmetric]] by blast
  ultimately show ?thesis by simp
qed

text \<open>
  Claim C10.  For every memory behind the pointer and every length, \<^verbatim>\<open>read_data\<close>
  terminates: its loop is a total function, whose termination is proved on
  \<open>size - offset\<close> with no assumption on the octets read.  \<^verbatim>\<open>next_data_elem\<close> returns a
  value that is at most 0, or a next offset that is at least 2 above the offset it was
  given and at most \<open>size + 1\<close>; and the loop of \<^verbatim>\<open>read_data\<close> runs its body, which counts
  the elements, at most \<open>(data_length + 1) div 2\<close> times, and at least once when the first
  element passes the length test.
\<close>

theorem read_data_progress:
  "(fst (next_data_elem e data offset sz) \<le> 0 \<or>
      offset + 2 \<le> fst (next_data_elem e data offset sz) \<and>
      fst (next_data_elem e data offset sz) \<le> sz + 1) \<and>
   0 \<le> fst (read_data G data data_length r) \<and>
   2 * fst (read_data G data data_length r) \<le> uint data_length + 1 \<and>
   (data 0 \<noteq> 0 \<and> uint (data 0) \<le> uint data_length \<longrightarrow>
      1 \<le> fst (read_data G data data_length r))"
proof (intro conjI impI)
  from next_data_elem_step [of e data offset sz, OF prod.collapse [symmetric]]
  show "fst (next_data_elem e data offset sz) \<le> 0 \<or>
      offset + 2 \<le> fst (next_data_elem e data offset sz) \<and>
      fst (next_data_elem e data offset sz) \<le> sz + 1"
    by auto
next
  have "read_data_loop G data (uint data_length) 0 0 (0, 0, 0) r =
      (fst (read_data G data data_length r), snd (read_data G data data_length r))"
    by (simp add: read_data_def)
  from read_data_loop_count [OF this]
  show "0 \<le> fst (read_data G data data_length r)"
    and "2 * fst (read_data G data data_length r) \<le> uint data_length + 1"
    by auto
next
  assume a: "data 0 \<noteq> 0 \<and> uint (data 0) \<le> uint data_length"
  then have "uint (data 0) \<noteq> 0" by (simp add: uint_0_iff)
  moreover have "0 \<le> uint (data 0)" by simp
  ultimately have "0 < uint data_length" using a by linarith
  with a have "0 + 1 \<le> fst (read_data_loop G data (uint data_length) 0 0 (0, 0, 0) r)"
    by (intro read_data_loop_first) simp_all
  then show "1 \<le> fst (read_data G data data_length r)" by (simp add: read_data_def)
qed

text \<open>
  The progress and the bound on a buffer of exactly \<open>data_length\<close> octets whose one
  element ends at \<^verbatim>\<open>data[data_length]\<close>: the decoder reads the octet after the buffer as
  the high octet of the UUID, and returns.
\<close>

theorem read_data_progress_witness:
  "next_data_elem (0, 0, 0) (memory_of [0x03, 0x03, 0x0F] (\<lambda>i. 0)) 0 3 = (4, (2, 3, 2)) \<and>
   read_data GAP_T_assigned (memory_of [0x03, 0x03, 0x0F] (\<lambda>i. 0)) 3 new_EInfoReport =
     (1, new_EInfoReport\<lparr>services := [uuid16_t 0x000F]\<rparr>) \<and>
   ((4::int) \<le> 0 \<or> 0 + 2 \<le> (4::int) \<and> (4::int) \<le> 3 + 1) \<and>
   (0::int) \<le> 1 \<and> 2 * (1::int) \<le> uint (3 :: uint8_t) + 1 \<and>
   memory_of [0x03, 0x03, 0x0F] (\<lambda>i. 0) 0 \<noteq> 0 \<and>
   uint (memory_of [0x03, 0x03, 0x0F] (\<lambda>i. 0) 0) \<le> uint (3 :: uint8_t)"
proof -
  have m: "memory_of [0x03, 0x03, 0x0F] (\<lambda>i. 0) 0 = 3"
    by (simp add: memory_of_def peek_def)
  have n: "next_data_elem (0, 0, 0) (memory_of [0x03, 0x03, 0x0F] (\<lambda>i. 0)) 0 3 = (4, (2, 3, 2))"
    by (simp add: next_data_elem_def memory_of_def peek_def ENOENT_def)
  have r: "read_data GAP_T_assigned (memory_of [0x03, 0x03, 0x0F] (\<lambda>i. 0)) 3 new_EInfoReport =
      (1, new_EInfoReport\<lparr>services := [uuid16_t 0x000F]\<rparr>)"
    by (simp add: read_data_def read_data_loop.simps next_data_elem_def memory_of_def peek_def
          ENOENT_def read_data_switch_def get_uint16_at_def get_uintN_at_def octets_at_def
          le_value_def addService_def new_EInfoReport_def upt_rec)
  from read_data_progress [where e = "(0, 0, 0)"
      and data = "memory_of [0x03, 0x03, 0x0F] (\<lambda>i. 0)" and offset = 0 and sz = 3
      and G = GAP_T_assigned and data_length = 3 and r = new_EInfoReport] n r m
  show ?thesis by simp
qed

text \<open>
  Claim C1.  The claim asks that a \<^verbatim>\<open>DEVICE_ID\<close> element is decoded from its own data.
  The source reads \<^verbatim>\<open>data[0]\<close> .. \<^verbatim>\<open>data[7]\<close>, the start of the whole buffer, where every
  other case reads \<^verbatim>\<open>elem_data\<close>.  On the buffer holding the single element
  \<^verbatim>\<open>09 10 01 00 02 00 03 00 04 00\<close> (source 1, vendor 2, product 3, version 4) the
  decoder stores source \<open>0x1009\<close> (the element's length and type octets), vendor 1,
  product 2 and version 3, whatever the memory holds beyond the buffer.
\<close>

theorem read_data_device_id_reads_buffer_start:
  "read_data GAP_T_assigned
     (memory_of [0x09, 0x10, 0x01, 0x00, 0x02, 0x00, 0x03, 0x00, 0x04, 0x00] beyond) 10
     new_EInfoReport =
   (1, new_EInfoReport\<lparr>did_source := 0x1009, did_vendor := 1, did_product := 2,
         did_version := 3, eir_data_mask := {EIR_DEVICE_ID}\<rparr>)"
  by (simp add: read_data_def read_data_loop.simps next_data_elem_def memory_of_def peek_def
        ENOENT_def read_data_switch_def setDeviceID_def set_bit_mask_def u16_of_octets_def
        new_EInfoReport_def)

text \<open>
  Claim C7.  The claim asks that an element of a type outside the decode table is
  recorded on the report and sets no field.  In the source the cases
  \<^verbatim>\<open>SOLICIT_UUID16\<close>, \<^verbatim>\<open>SOLICIT_UUID128\<close>, \<^verbatim>\<open>SVC_DATA_UUID16\<close>, \<^verbatim>\<open>PUB_TRGT_ADDR\<close> and
  \<^verbatim>\<open>RND_TRGT_ADDR\<close> fall through into \<^verbatim>\<open>GAP_APPEARANCE\<close>, and the default case only
  prints a warning (``FIXME: Use a data blob'').  A \<^verbatim>\<open>SOLICIT_UUID16\<close> element
  \<^verbatim>\<open>03 14 34 12\<close> sets the appearance to \<open>0x1234\<close> and its mask bit; an element of the
  unknown type \<open>0x3D\<close> leaves the report as it was, with nothing recorded.
\<close>

theorem read_data_unhandled_element:
  "read_data GAP_T_assigned (memory_of [0x03, 0x14, 0x34, 0x12] beyond) 4 new_EInfoReport =
     (1, new_EInfoReport\<lparr>appearance := 0x1234, eir_data_mask := {EIR_APPEARANCE}\<rparr>) \<and>
   read_data GAP_T_assigned (memory_of [0x03, 0x3D, 0x34, 0x12] beyond) 4 new_EInfoReport =
     (1, new_EInfoReport)"
  by (simp add: read_data_def read_data_loop.simps next_data_elem_def memory_of_def peek_def
        ENOENT_def read_data_switch_def get_uint16_at_def get_uintN_at_def octets_at_def
        le_value_def setAppearance_def set_bit_mask_def new_EInfoReport_def upt_rec)


section \<open>Sending and the MTU\<close>

lemma getSize_pos: "0 < getSize msg"
  by (cases msg) auto

lemma send_effect:
  assumes "send msg h = (r, h1)"
  shows "gattIndicationListener h1 = gattIndicationListener h \<and>
         gatt_services h1 = gatt_services h \<and>
         attPDURing h1 = attPDURing h \<and>
         ((trace h1 = trace h \<and> r \<noteq> Return True) \<or>
          (\<exists>res. trace h1 = trace h @ [L2CAP_write msg res] \<and> r = Return (res = getSize msg)))"
  using assms getSize_pos [of msg]
  by (auto simp: send_def l2cap_write_def Let_def split: sum.splits if_splits)

text \<open>
  Claim C4.  In a connected engine (the engine's state, the channel's open flag and
  the channel's state all say so) \<^verbatim>\<open>send\<close> of a PDU larger than \<^verbatim>\<open>usedMTU\<close> throws
  \<^verbatim>\<open>IllegalArgumentException\<close> and leaves the engine as it was: nothing is written to
  the channel.
\<close>

theorem send_refuses_oversized_pdu:
  assumes "State_less Disconnected (state h)" and "l2_isOpen (l2cap h)"
    and "State_less Disconnected (l2_state (l2cap h))"
    and "getSize msg > uint (usedMTU h)"
  shows "send msg h = (Throw IllegalArgumentException, h)"
  using assms by (simp add: send_def validateState_def)

text \<open>The spec's scenario: a PDU of 186 octets on a connection with an MTU of 185.\<close>

theorem send_refuses_oversized_pdu_witness:
  "State_less Disconnected (state ((example_connected (\<lambda>n. 0) [])\<lparr>usedMTU := 185\<rparr>)) \<and>
   getSize (AttWriteReq 0x0010 (replicate 183 0)) = 186 \<and>
   send (AttWriteReq 0x0010 (replicate 183 0)) ((example_connected (\<lambda>n. 0) [])\<lparr>usedMTU := 185\<rparr>)
     = (Throw IllegalArgumentException, (example_connected (\<lambda>n. 0) [])\<lparr>usedMTU := 185\<rparr>)"
  using send_refuses_oversized_pdu [of "(example_connected (\<lambda>n. 0) [])\<lparr>usedMTU := 185\<rparr>"
      "AttWriteReq 0x0010 (replicate 183 0)"]
  by (simp add: example_connected_def example_handler_def example_l2cap_def State_less_def)

lemma uint_of_int_u16: "0 \<le> x \<Longrightarrow> x < 65536 \<Longrightarrow> uint (of_int x :: uint16_t) = x"
  by (simp add: uint_word_of_int)

text \<open>
  Claim C3, as stated, fails: the source stores the MTU of the response unclipped
  (\<^verbatim>\<open>serverMTU = mtu\<close>) and clips only \<^verbatim>\<open>usedMTU\<close>.  With \<^verbatim>\<open>ClientMaxMTU\<close> 512 and a
  response carrying 600, \<^verbatim>\<open>serverMTU\<close> is 600 after \<^verbatim>\<open>connect\<close>, not \<open>min 512 600\<close>.
\<close>

theorem connect_server_mtu_counterexample:
  "getMTUSize \<lparr>opcode = ATT_EXCHANGE_MTU_RSP, pdu = [0x03, 0x58, 0x02]\<rparr> = Inr 600 \<and>
   fst (connect 512 (example_handler (\<lambda>n. 3)
          [\<lparr>opcode = ATT_EXCHANGE_MTU_RSP, pdu = [0x03, 0x58, 0x02]\<rparr>])) = Return True \<and>
   uint (serverMTU (snd (connect 512 (example_handler (\<lambda>n. 3)
          [\<lparr>opcode = ATT_EXCHANGE_MTU_RSP, pdu = [0x03, 0x58, 0x02]\<rparr>])))) = 600 \<and>
   uint (serverMTU (snd (connect 512 (example_handler (\<lambda>n. 3)
          [\<lparr>opcode = ATT_EXCHANGE_MTU_RSP, pdu = [0x03, 0x58, 0x02]\<rparr>])))) \<noteq>
     min 512 (uint (600 :: uint16_t))"
  by (simp add: connect_def then_do_def try_get_def validateState_def l2cap_connect_def
        exchangeMTU_def send_def l2cap_write_def receiveNext_def Let_def State_less_def
        example_handler_def example_l2cap_def getMTUSize_def pdu_get_uint16_def get_uint16_def
        get_uintN_def peek_range_def le_value_def)

text \<open>
  Claim C3, amended.  When \<^verbatim>\<open>connect()\<close> on a disconnected engine connects the
  channel, sends its MTU request and receives an \<^verbatim>\<open>ATT_EXCHANGE_MTU_RSP\<close> carrying
  \<open>m\<close>, it returns true; \<^verbatim>\<open>serverMTU\<close> is \<open>m\<close> itself if \<open>m > 0\<close> and is unchanged
  otherwise; and in both cases \<^verbatim>\<open>usedMTU\<close> is \<open>min ClientMaxMTU serverMTU\<close>.
\<close>

theorem connect_mtu:
  assumes disc: "\<not> State_less Disconnected (state h)" "\<not> l2_isOpen (l2cap h)"
      "\<not> State_less Disconnected (l2_state (l2cap h))"
    and conn: "l2_on_connect (l2cap h) = (s, True)" "State_less Disconnected s"
    and cmm: "0 \<le> CMM"
    and fits: "3 \<le> uint (usedMTU h)"
    and wr: "l2_write_result (l2cap h) (l2_writes (l2cap h)) = 3"
    and ring: "attPDURing h = p # ps" "opcode p = ATT_EXCHANGE_MTU_RSP" "getMTUSize p = Inr m"
  shows "\<exists>h'. connect CMM h = (Return True, h') \<and>
           serverMTU h' = (if 0 < m then m else serverMTU h) \<and>
           uint (usedMTU h') = min CMM (uint (serverMTU h'))"
proof -
  have c1: "uint (of_int CMM :: uint16_t) \<le> CMM"
    using cmm by (simp add: uint_word_of_int zmod_le_nonneg_dividend)
  have ex: "\<And>x :: uint16_t. uint (of_int (min CMM (uint x)) :: uint16_t) = min CMM (uint x)"
  proof -
    fix x :: uint16_t
    have "uint x < 65536" using uint_bounded [of x] by simp
    then show "uint (of_int (min CMM (uint x)) :: uint16_t) = min CMM (uint x)"
      using cmm by (intro uint_of_int_u16) auto
  qed
  show ?thesis
    using assms c1
    by (simp add: connect_def then_do_def try_get_def validateState_def l2cap_connect_def
          exchangeMTU_def send_def l2cap_write_def receiveNext_def Let_def ex)
qed

text \<open>The spec's scenario: \<^verbatim>\<open>ClientMaxMTU\<close> 517 and a response carrying 185.\<close>

theorem connect_mtu_witness:
  "getMTUSize \<lparr>opcode = ATT_EXCHANGE_MTU_RSP, pdu = [0x03, 0xB9, 0x00]\<rparr> = Inr 185 \<and>
   (\<exists>h'. connect 517 (example_handler (\<lambda>n. 3)
             [\<lparr>opcode = ATT_EXCHANGE_MTU_RSP, pdu = [0x03, 0xB9, 0x00]\<rparr>]) = (Return True, h') \<and>
          serverMTU h' = 185 \<and> uint (usedMTU h') = min 517 (uint (serverMTU h')))"
proof -
  have m: "getMTUSize \<lparr>opcode = ATT_EXCHANGE_MTU_RSP, pdu = [0x03, 0xB9, 0x00]\<rparr> = Inr 185"
    by (simp add: getMTUSize_def pdu_get_uint16_def get_uint16_def get_uintN_def peek_range_def
          le_value_def)
  from connect_mtu [of "example_handler (\<lambda>n. 3)
       [\<lparr>opcode = ATT_EXCHANGE_MTU_RSP, pdu = [0x03, 0xB9, 0x00]\<rparr>]" Connected 517
       "\<lparr>opcode = ATT_EXCHANGE_MTU_RSP, pdu = [0x03, 0xB9, 0x00]\<rparr>" "[]" 185, OF _ _ _ _ _ _ _ _ _ _ m] m
  show ?thesis
    by (simp add: example_handler_def example_l2cap_def State_less_def)
qed

section \<open>Indications\<close>

lemma send_connected:
  assumes "State_less Disconnected (state h)" and "l2_isOpen (l2cap h)"
    and "State_less Disconnected (l2_state (l2cap h))"
    and "getSize msg \<le> uint (usedMTU h)"
  shows "\<exists>h1. send msg h =
            (Return (l2_write_result (l2cap h) (l2_writes (l2cap h)) = getSize msg), h1) \<and>
          trace h1 =
            trace h @ [L2CAP_write msg (l2_write_result (l2cap h) (l2_writes (l2cap h)))] \<and>
          gattIndicationListener h1 = gattIndicationListener h \<and>
          gatt_services h1 = gatt_services h"
  using assms getSize_pos [of msg]
  by (auto simp: send_def validateState_def l2cap_write_def Let_def)

lemma dispatch_indication:
  assumes "opcode p = ATT_HANDLE_VALUE_IND"
  shows "l2capReader_dispatch p h =
     then_do (if sendIndicationConfirmation h then send AttHandleValueCfm
              else Pair (Return False)) (\<lambda>cfmSent h1.
       case gattIndicationListener h1 of
         None \<Rightarrow> (Return (), h1)
       | Some l \<Rightarrow>
           then_do (try_get (getHandle p)) (\<lambda>hnd h2.
             (Return (),
              h2\<lparr>trace := trace h2 @
                     [indicationReceived l (findCharacterisics hnd h2) p cfmSent]\<rparr>)) h1) h"
  using assms by (simp add: l2capReader_dispatch_def)

lemma indication_sent:
  assumes ind: "opcode p = ATT_HANDLE_VALUE_IND"
    and run: "l2capReader_dispatch p h = (r, h')"
    and flag: "sendIndicationConfirmation h"
    and conn: "State_less Disconnected (state h)" "l2_isOpen (l2cap h)"
      "State_less Disconnected (l2_state (l2cap h))"
    and mtu: "1 \<le> uint (usedMTU h)"
  shows "case gattIndicationListener h of
       None \<Rightarrow>
         r = Return () \<and>
         trace h' = trace h @
           [L2CAP_write AttHandleValueCfm (l2_write_result (l2cap h) (l2_writes (l2cap h)))]
     | Some l \<Rightarrow>
         (case getHandle p of
            Inl e \<Rightarrow>
              r = Throw e \<and>
              trace h' = trace h @
                [L2CAP_write AttHandleValueCfm (l2_write_result (l2cap h) (l2_writes (l2cap h)))]
          | Inr hnd \<Rightarrow>
              r = Return () \<and>
              trace h' = trace h @
                [L2CAP_write AttHandleValueCfm (l2_write_result (l2cap h) (l2_writes (l2cap h))),
                 indicationReceived l (findCharacterisics hnd h) p
                   (l2_write_result (l2cap h) (l2_writes (l2cap h)) = 1)])"
proof -
  from send_connected [OF conn, of AttHandleValueCfm] mtu
  obtain h1 where s: "send AttHandleValueCfm h =
        (Return (l2_write_result (l2cap h) (l2_writes (l2cap h)) = 1), h1)"
    and t: "trace h1 = trace h @
        [L2CAP_write AttHandleValueCfm (l2_write_result (l2cap h) (l2_writes (l2cap h)))]"
    and l: "gattIndicationListener h1 = gattIndicationListener h"
    and g: "gatt_services h1 = gatt_services h"
    by auto
  from run show ?thesis
    unfolding dispatch_indication [OF ind]
    using flag s t l g
    by (auto simp: then_do_def try_get_def findCharacterisics_def
          split: option.splits sum.splits)
qed

lemma indication_unconfirmed:
  assumes ind: "opcode p = ATT_HANDLE_VALUE_IND"
    and run: "l2capReader_dispatch p h = (r, h')"
    and flag: "\<not> sendIndicationConfirmation h"
  shows "case gattIndicationListener h of
       None \<Rightarrow> r = Return () \<and> h' = h
     | Some l \<Rightarrow>
         (case getHandle p of
            Inl e \<Rightarrow> r = Throw e \<and> h' = h
          | Inr hnd \<Rightarrow>
              r = Return () \<and>
              trace h' = trace h @ [indicationReceived l (findCharacterisics hnd h) p False])"
  using run flag unfolding dispatch_indication [OF ind]
  by (auto simp: then_do_def try_get_def split: option.splits sum.splits)

lemma indication_order:
  assumes ind: "opcode p = ATT_HANDLE_VALUE_IND"
    and run: "l2capReader_dispatch p h = (r, h')"
  shows "\<exists>evs. trace h' = trace h @ evs \<and>
     (\<forall>l d q b. indicationReceived l d q b \<in> set evs \<longrightarrow>
        q = p \<and>
        (if sendIndicationConfirmation h
         then (\<exists>h1. send AttHandleValueCfm h = (Return b, h1) \<and>
                     trace h' = trace h1 @ [indicationReceived l d p b]) \<and>
              (b \<longrightarrow> evs = [L2CAP_write AttHandleValueCfm 1, indicationReceived l d p True])
         else \<not> b \<and> evs = [indicationReceived l d p False]))"
proof (cases "sendIndicationConfirmation h")
  case False
  with ind run show ?thesis
    by (auto simp: l2capReader_dispatch_def then_do_def try_get_def
          split: option.splits sum.splits)
next
  case True
  obtain r1 h1 where s: "send AttHandleValueCfm h = (r1, h1)" by (cases "send AttHandleValueCfm h")
  note eff = send_effect [OF s]
  show ?thesis
  proof (cases r1)
    case (Return b)
    from eff Return consider
        (quiet) "trace h1 = trace h" "\<not> b"
      | (wrote) res where "trace h1 = trace h @ [L2CAP_write AttHandleValueCfm res]" "b = (res = 1)"
      by auto
    then show ?thesis
    proof cases
      case quiet
      with ind run True s Return show ?thesis
        by (auto simp: l2capReader_dispatch_def then_do_def try_get_def
              split: option.splits sum.splits)
    next
      case wrote
      with ind run True s Return show ?thesis
        by (auto simp: l2capReader_dispatch_def then_do_def try_get_def
              split: option.splits sum.splits)
    qed
  next
    case (Throw e)
    with ind run True s eff show ?thesis
      by (auto simp: l2capReader_dispatch_def then_do_def)
  next
    case Block
    with ind run True s eff show ?thesis
      by (auto simp: l2capReader_dispatch_def then_do_def)
  qed
qed

text \<open>
  Claim C9.  The reader handles an \<^verbatim>\<open>ATT_HANDLE_VALUE_IND\<close>; \<open>res\<close> is what the channel
  answers to the next \<^verbatim>\<open>write\<close>.

  \<^item> With the confirmation flag enabled, in a connected engine whose MTU admits the one
    octet of the confirmation, the \<^verbatim>\<open>ATT_HANDLE_VALUE_CFM\<close> is written to the channel,
    listener or not; with a listener installed the pass adds exactly two events, the
    write and then the listener's call for this PDU, which is passed \<open>res = 1\<close>, the
    boolean that \<^verbatim>\<open>send\<close> returned.  (A PDU too short to hold a handle makes
    \<^verbatim>\<open>getHandle\<close> throw after the write.)
  \<^item> With the flag disabled nothing is written and the listener's call, passed false,
    is the only event.
  \<^item> In every engine state, every call of the indication listener is for this PDU and
    is the last event of the pass; with the flag enabled \<^verbatim>\<open>send\<close> has returned before
    it and the listener is passed the boolean that \<^verbatim>\<open>send\<close> returned.
\<close>

theorem indication_confirmation_before_listener:
  assumes ind: "opcode p = ATT_HANDLE_VALUE_IND"
    and run: "l2capReader_dispatch p h = (r, h')"
  shows "(sendIndicationConfirmation h \<and> State_less Disconnected (state h) \<and>
          l2_isOpen (l2cap h) \<and> State_less Disconnected (l2_state (l2cap h)) \<and>
          1 \<le> uint (usedMTU h) \<longrightarrow>
            (let res = l2_write_result (l2cap h) (l2_writes (l2cap h)) in
             case gattIndicationListener h of
               None \<Rightarrow> r = Return () \<and> trace h' = trace h @ [L2CAP_write AttHandleValueCfm res]
             | Some l \<Rightarrow>
                 (case getHandle p of
                    Inl e \<Rightarrow>
                      r = Throw e \<and> trace h' = trace h @ [L2CAP_write AttHandleValueCfm res]
                  | Inr hnd \<Rightarrow>
                      r = Return () \<and>
                      trace h' = trace h @
                        [L2CAP_write AttHandleValueCfm res,
                         indicationReceived l (findCharacterisics hnd h) p (res = 1)]))) \<and>
         (\<not> sendIndicationConfirmation h \<longrightarrow>
            (case gattIndicationListener h of
               None \<Rightarrow> r = Return () \<and> h' = h
             | Some l \<Rightarrow>
                 (case getHandle p of
                    Inl e \<Rightarrow> r = Throw e \<and> h' = h
                  | Inr hnd \<Rightarrow>
                      r = Return () \<and>
                      trace h' = trace h @
                        [indicationReceived l (findCharacterisics hnd h) p False]))) \<and>
         (\<exists>evs. trace h' = trace h @ evs \<and>
            (\<forall>l d q b. indicationReceived l d q b \<in> set evs \<longrightarrow>
               q = p \<and>
               (if sendIndicationConfirmation h
                then (\<exists>h1. send AttHandleValueCfm h = (Return b, h1) \<and>
                            trace h' = trace h1 @ [indicationReceived l d p b]) \<and>
                     (b \<longrightarrow> evs = [L2CAP_write AttHandleValueCfm 1,
                                     indicationReceived l d p True])
                else \<not> b \<and> evs = [indicationReceived l d p False])))"
proof (intro conjI impI)
  assume a: "sendIndicationConfirmation h \<and> State_less Disconnected (state h) \<and>
      l2_isOpen (l2cap h) \<and> State_less Disconnected (l2_state (l2cap h)) \<and>
      1 \<le> uint (usedMTU h)"
  then have "sendIndicationConfirmation h" "State_less Disconnected (state h)"
    "l2_isOpen (l2cap h)" "State_less Disconnected (l2_state (l2cap h))"
    "1 \<le> uint (usedMTU h)"
    by blast+
  from indication_sent [OF ind run this]
  show "let res = l2_write_result (l2cap h) (l2_writes (l2cap h)) in
        case gattIndicationListener h of
          None \<Rightarrow> r = Return () \<and> trace h' = trace h @ [L2CAP_write AttHandleValueCfm res]
        | Some l \<Rightarrow>
            (case getHandle p of
               Inl e \<Rightarrow>
                 r = Throw e \<and> trace h' = trace h @ [L2CAP_write AttHandleValueCfm res]
             | Inr hnd \<Rightarrow>
                 r = Return () \<and>
                 trace h' = trace h @
                   [L2CAP_write AttHandleValueCfm res,
                    indicationReceived l (findCharacterisics hnd h) p (res = 1)])"
    unfolding Let_def .
next
  assume "\<not> sendIndicationConfirmation h"
  from indication_unconfirmed [OF ind run this]
  show "case gattIndicationListener h of
          None \<Rightarrow> r = Return () \<and> h' = h
        | Some l \<Rightarrow>
            (case getHandle p of
               Inl e \<Rightarrow> r = Throw e \<and> h' = h
             | Inr hnd \<Rightarrow>
                 r = Return () \<and>
                 trace h' = trace h @
                   [indicationReceived l (findCharacterisics hnd h) p False])" .
next
  from indication_order [OF ind run]
  show "\<exists>evs. trace h' = trace h @ evs \<and>
      (\<forall>l d q b. indicationReceived l d q b \<in> set evs \<longrightarrow>
         q = p \<and>
         (if sendIndicationConfirmation h
          then (\<exists>h1. send AttHandleValueCfm h = (Return b, h1) \<and>
                      trace h' = trace h1 @ [indicationReceived l d p b]) \<and>
               (b \<longrightarrow> evs = [L2CAP_write AttHandleValueCfm 1,
                               indicationReceived l d p True])
          else \<not> b \<and> evs = [indicationReceived l d p False]))" .
qed

text \<open>
  A connected engine with the listener 7, on one indication for the handle \<open>0x0010\<close>:
  with confirmations enabled the write comes first and the listener is passed true;
  with confirmations disabled the listener's call is the only event.
\<close>

theorem indication_confirmation_before_listener_witness:
  "opcode example_indication = ATT_HANDLE_VALUE_IND \<and>
   sendIndicationConfirmation example_listening \<and>
   State_less Disconnected (state example_listening) \<and>
   l2_isOpen (l2cap example_listening) \<and>
   State_less Disconnected (l2_state (l2cap example_listening)) \<and>
   1 \<le> uint (usedMTU example_listening) \<and>
   gattIndicationListener example_listening = Some 7 \<and>
   getHandle example_indication = Inr 0x0010 \<and>
   l2capReader_dispatch example_indication example_listening =
     (Return (), snd (l2capReader_dispatch example_indication example_listening)) \<and>
   trace (snd (l2capReader_dispatch example_indication example_listening)) =
     trace example_listening @
       [L2CAP_write AttHandleValueCfm 1, indicationReceived 7 None example_indication True] \<and>
   \<not> sendIndicationConfirmation (example_listening\<lparr>sendIndicationConfirmation := False\<rparr>) \<and>
   trace (snd (l2capReader_dispatch example_indication
                 (example_listening\<lparr>sendIndicationConfirmation := False\<rparr>))) =
     trace example_listening @ [indicationReceived 7 None example_indication False]"
proof -
  let ?h = example_listening
  let ?q = "example_listening\<lparr>sendIndicationConfirmation := False\<rparr>"
  have o: "opcode example_indication = ATT_HANDLE_VALUE_IND"
    by (simp add: example_indication_def)
  have c: "sendIndicationConfirmation ?h" "State_less Disconnected (state ?h)"
    "l2_isOpen (l2cap ?h)" "State_less Disconnected (l2_state (l2cap ?h))"
    "1 \<le> uint (usedMTU ?h)" "gattIndicationListener ?h = Some 7"
    "l2_write_result (l2cap ?h) (l2_writes (l2cap ?h)) = 1"
    "gatt_services ?h = []" "trace ?h = []"
    by (simp_all add: example_listening_def example_connected_def example_handler_def
          example_l2cap_def State_less_def)
  have q: "\<not> sendIndicationConfirmation ?q" "gattIndicationListener ?q = Some 7"
    "gatt_services ?q = []" "trace ?q = []"
    using c by simp_all
  have g: "getHandle example_indication = Inr 0x0010"
    by (simp add: getHandle_def pdu_get_uint16_def get_uint16_def get_uintN_def peek_range_def
          le_value_def example_indication_def)
  have f: "findCharacterisics 0x0010 ?h = None" "findCharacterisics 0x0010 ?q = None"
    using c(8) q(3) by (simp_all add: findCharacterisics_def)
  note sent = indication_confirmation_before_listener [OF o surjective_pairing, of ?h,
      THEN conjunct1]
  note unconfirmed = indication_confirmation_before_listener [OF o surjective_pairing, of ?q,
      THEN conjunct2, THEN conjunct1]
  from sent
  have 1: "fst (l2capReader_dispatch example_indication ?h) = Return ()"
    "trace (snd (l2capReader_dispatch example_indication ?h)) =
       trace ?h @
         [L2CAP_write AttHandleValueCfm 1, indicationReceived 7 None example_indication True]"
    using c g f by (simp_all add: Let_def)
  from unconfirmed
  have 2: "trace (snd (l2capReader_dispatch example_indication ?q)) =
       trace ?h @ [indicationReceived 7 None example_indication False]"
    using q c(9) g f by simp
  from 1 have "l2capReader_dispatch example_indication ?h =
      (Return (), snd (l2capReader_dispatch example_indication ?h))"
    by (metis prod.collapse)
  with 1 2 o c g q show ?thesis by simp
qed


section \<open>Reading the elements of a response\<close>

lemma peek_range_eq:
  "0 \<le> i \<Longrightarrow> 0 < n \<Longrightarrow> i + n \<le> int (length p) \<Longrightarrow>
     peek_range p i n = Some (take (nat n) (drop (nat i) p))"
  by (simp add: peek_range_def)

lemma get_uint16_eq:
  "0 \<le> i \<Longrightarrow> i + 2 \<le> int (length p) \<Longrightarrow>
     pdu_get_uint16 p i = Inr (le16 (drop (nat i) p))"
  by (simp add: pdu_get_uint16_def get_uint16_def get_uintN_def peek_range_eq le16_def)

lemma pdu_get_uuid_eq:
  assumes "0 \<le> i" and "toTypeSize n = Inr tsz" and "i + n \<le> int (length p)"
  shows "pdu_get_uuid p i tsz = Inr (uuid_of_octets (take (nat n) (drop (nat i) p)))"
proof -
  from assms(2) consider "n = 2" "tsz = UUID16_SZ" | "n = 4" "tsz = UUID32_SZ" | "n = 16" "tsz = UUID128_SZ"
    by (auto simp: toTypeSize_def split: if_splits)
  then show ?thesis
    using assms(1,3)
    by cases
      (simp_all add: pdu_get_uuid_def get_uint16_def get_uint32_def get_uint128_def get_uintN_def
         peek_range_eq uuid_of_octets_def)
qed

lemma get_uint16_nat:
  "k + 2 \<le> length p \<Longrightarrow> pdu_get_uint16 p (int k) = Inr (le16 (drop k p))"
  by (rule get_uint16_eq [of "int k" p, simplified]) simp

lemma pdu_get_uuid_nat:
  assumes "toTypeSize (int n) = Inr tsz" and "k + n \<le> length p"
  shows "pdu_get_uuid p (int k) tsz = Inr (uuid_of_octets (take n (drop k p)))"
  using pdu_get_uuid_eq [of "int k" "int n" tsz p] assms by simp

lemma take2_le16: "2 \<le> n \<Longrightarrow> le16 (take n xs) = le16 xs"
  by (simp add: le16_def min_def)

lemma rsp_size_facts:
  assumes "2 \<le> length (pdu p)" and "0 < element_total_size p"
  shows "getElementTotalSize p = Inr (int (element_total_size p))"
    and "getElementCount p = Inr (int (element_count p))"
    and "getElementPDUOffset p (int i) = Inr (int (2 + i * element_total_size p))"
proof -
  have pk: "peek (pdu p) 1 = Some (pdu p ! 1)"
    using assms(1) by (simp add: peek_def)
  show ts: "getElementTotalSize p = Inr (int (element_total_size p))"
    by (simp add: getElementTotalSize_def pdu_get_uint8_def pk element_total_size_def)
  have "(int (length (pdu p)) - 2) div int (element_total_size p)
          = int ((length (pdu p) - 2) div element_total_size p)"
    using assms(1) by (simp add: zdiv_int of_nat_diff)
  then show "getElementCount p = Inr (int (element_count p))"
    using assms(2) by (simp add: getElementCount_def ts element_count_def)
  show "getElementPDUOffset p (int i) = Inr (int (2 + i * element_total_size p))"
    by (simp add: getElementPDUOffset_def ts)
qed

lemma element_in_pdu:
  assumes "i < element_count p" and "2 \<le> length (pdu p)"
  shows "2 + Suc i * element_total_size p \<le> length (pdu p)"
proof -
  have "Suc i * element_total_size p \<le> element_count p * element_total_size p"
    using assms(1) by (intro mult_le_mono1) simp
  also have "\<dots> \<le> length (pdu p) - 2"
    by (simp add: element_count_def)
  finally show ?thesis using assms(2) by linarith
qed

lemma wf_group_rspD:
  assumes "wf_group_rsp p"
  shows "2 \<le> length (pdu p)" and "6 \<le> element_total_size p" and "1 \<le> element_count p"
  using assms by (auto simp: wf_group_rsp_def)

lemma wf_group_rsp_tsz:
  assumes "wf_group_rsp p"
  obtains tsz where "toTypeSize (int (element_total_size p - 4)) = Inr tsz"
  using assms by (auto simp: wf_group_rsp_def toTypeSize_def)

lemma group_element_reads:
  assumes wf: "wf_group_rsp p" and i: "i < element_count p"
  shows "pdu_get_uint16 (pdu p) (int (2 + i * element_total_size p)) = Inr (le16 (rsp_element p i))"
    and "pdu_get_uint16 (pdu p) (int (2 + i * element_total_size p) + 2)
           = Inr (le16 (drop 2 (rsp_element p i)))"
    and "toTypeSize (int (element_total_size p - 4)) = Inr tsz \<Longrightarrow>
         pdu_get_uuid (pdu p) (int (2 + i * element_total_size p) + 2 + 2) tsz
           = Inr (uuid_of_octets (drop 4 (rsp_element p i)))"
proof -
  let ?esz = "element_total_size p"
  let ?k = "2 + i * ?esz"
  note d = wf_group_rspD [OF wf]
  have bound: "?k + ?esz \<le> length (pdu p)"
    using element_in_pdu [OF i d(1)] by simp
  have e1: "le16 (rsp_element p i) = le16 (drop ?k (pdu p))"
    using d(2) by (simp add: rsp_element_def take2_le16)
  have e2: "le16 (drop 2 (rsp_element p i)) = le16 (drop (?k + 2) (pdu p))"
    using d(2) by (simp add: rsp_element_def drop_take take2_le16 add.commute)
  have e3: "drop 4 (rsp_element p i) = take (?esz - 4) (drop (?k + 4) (pdu p))"
    by (simp add: rsp_element_def drop_take add.commute)
  show "pdu_get_uint16 (pdu p) (int ?k) = Inr (le16 (rsp_element p i))"
    unfolding e1 using bound d(2) by (intro get_uint16_nat) simp
  have "int ?k + 2 = int (?k + 2)" by simp
  then show "pdu_get_uint16 (pdu p) (int ?k + 2) = Inr (le16 (drop 2 (rsp_element p i)))"
    unfolding e2 using bound d(2) get_uint16_nat [of "?k + 2" "pdu p"] by simp
  assume tsz: "toTypeSize (int (?esz - 4)) = Inr tsz"
  have "int ?k + 2 + 2 = int (?k + 4)" by simp
  then show "pdu_get_uuid (pdu p) (int ?k + 2 + 2) tsz = Inr (uuid_of_octets (drop 4 (rsp_element p i)))"
    unfolding e3 using bound d(2) pdu_get_uuid_nat [OF tsz, of "?k + 4" "pdu p"] by simp
qed

lemma dps_element_wf:
  assumes wf: "wf_group_rsp p" and i: "i < element_count p"
  shows "dps_element p (int i) = Inr (service_of_element (rsp_element p i))"
proof -
  note d = wf_group_rspD [OF wf]
  have pos: "0 < element_total_size p" using d(2) by simp
  note sz = rsp_size_facts [OF d(1) pos]
  obtain tsz where tsz: "toTypeSize (int (element_total_size p - 4)) = Inr tsz"
    by (rule wf_group_rsp_tsz [OF wf])
  have tsz': "toTypeSize (int (element_total_size p) - 2 - 2) = Inr tsz"
    using tsz d(2) by (simp add: of_nat_diff)
  note rd = group_element_reads [OF wf i]
  show ?thesis
    unfolding dps_element_def and_then_def
    by (simp only: sz sum.case rd(1) rd(2) tsz' rd(3) [OF tsz] service_of_element_def)
qed

lemma dps_elements_wf:
  assumes wf: "wf_group_rsp p" and "\<forall>i \<in> set js. i < element_count p"
  shows "dps_elements p js result = (Inr (), result @ map (\<lambda>i. service_of_element (rsp_element p i)) js)"
  using assms(2)
  by (induction js arbitrary: result) (simp_all add: dps_element_wf [OF wf])

lemma last_end_wf:
  assumes wf: "wf_group_rsp p"
  shows "getElementEndHandle p (int (element_count p) - 1) = Inr (last_end_handle p)"
proof -
  let ?i = "element_count p - 1"
  note d = wf_group_rspD [OF wf]
  have pos: "0 < element_total_size p" using d(2) by simp
  note sz = rsp_size_facts [OF d(1) pos]
  have i: "?i < element_count p" using d(3) by simp
  have ii: "int (element_count p) - 1 = int ?i" using d(3) by simp
  have l: "last (rsp_elements p) = rsp_element p ?i"
    using d(3) by (simp add: rsp_elements_def last_map last_upt)
  show ?thesis
    unfolding ii getElementEndHandle_def last_end_handle_def l
    by (simp only: sz sum.case group_element_reads(2) [OF wf i])
qed

section \<open>Primary service discovery\<close>

lemma send_ok:
  assumes "State_less Disconnected (state h)" and "l2_isOpen (l2cap h)"
    and "State_less Disconnected (l2_state (l2cap h))"
    and "getSize msg \<le> uint (usedMTU h)"
    and "l2_write_result (l2cap h) (l2_writes (l2cap h)) = getSize msg"
  shows "send msg h = (Return True, snd (l2cap_write msg h))"
  using assms getSize_pos [of msg]
  by (simp add: send_def validateState_def l2cap_write_def Let_def)

lemma l2cap_write_fields:
  "state (snd (l2cap_write msg h)) = state h"
  "l2_isOpen (l2cap (snd (l2cap_write msg h))) = l2_isOpen (l2cap h)"
  "l2_state (l2cap (snd (l2cap_write msg h))) = l2_state (l2cap h)"
  "l2_write_result (l2cap (snd (l2cap_write msg h))) = l2_write_result (l2cap h)"
  "l2_writes (l2cap (snd (l2cap_write msg h))) = Suc (l2_writes (l2cap h))"
  "usedMTU (snd (l2cap_write msg h)) = usedMTU h"
  "attPDURing (snd (l2cap_write msg h)) = attPDURing h"
  "trace (snd (l2cap_write msg h)) =
     trace h @ [L2CAP_write msg (l2_write_result (l2cap h) (l2_writes (l2cap h)))]"
  by (simp_all add: l2cap_write_def Let_def)

lemma rsp_services:
  "map (\<lambda>i. service_of_element (rsp_element p i)) [0..<element_count p]
     = map service_of_element (rsp_elements p)"
  by (simp add: rsp_elements_def)

lemma dps_body_group:
  assumes c: "State_less Disconnected (state h)" "l2_isOpen (l2cap h)"
      "State_less Disconnected (l2_state (l2cap h))"
    and mtu: "7 \<le> uint (usedMTU h)"
    and wr: "l2_write_result (l2cap h) (l2_writes (l2cap h)) = 7"
    and ring: "attPDURing h = p # ps"
    and grp: "opcode p = ATT_READ_BY_GROUP_TYPE_RSP" and wf: "wf_group_rsp p"
  shows "dps_body sh result h =
     (Return (\<not> last_end_handle p < 0xffff),
      (if last_end_handle p < 0xffff then last_end_handle p + 1 else last_end_handle p),
      result @ map service_of_element (rsp_elements p),
      (snd (l2cap_write (AttReadByNTypeReq True sh 0xffff PRIMARY_SERVICE) h))\<lparr>attPDURing := ps\<rparr>)"
proof -
  let ?req = "AttReadByNTypeReq True sh 0xffff PRIMARY_SERVICE"
  have s: "send ?req h = (Return True, snd (l2cap_write ?req h))"
    using c mtu wr by (intro send_ok) simp_all
  have rn: "receiveNext (snd (l2cap_write ?req h)) =
       (Return p, (snd (l2cap_write ?req h))\<lparr>attPDURing := ps\<rparr>)"
    by (simp add: receiveNext_def l2cap_write_fields ring)
  note d = wf_group_rspD [OF wf]
  have pos: "0 < element_total_size p" using d(2) by simp
  have cnt: "getElementCount p = Inr (int (element_count p))"
    by (rule rsp_size_facts(2) [OF d(1) pos])
  have els: "dps_elements p [0..<element_count p] result
      = (Inr (), result @ map service_of_element (rsp_elements p))"
    by (simp add: dps_elements_wf [OF wf] rsp_services)
  show ?thesis
    by (simp add: dps_body_def s rn grp cnt els last_end_wf [OF wf])
qed

lemma dps_body_other:
  assumes c: "State_less Disconnected (state h)" "l2_isOpen (l2cap h)"
      "State_less Disconnected (l2_state (l2cap h))"
    and mtu: "7 \<le> uint (usedMTU h)"
    and wr: "l2_write_result (l2cap h) (l2_writes (l2cap h)) = 7"
    and ring: "attPDURing h = p # ps"
    and grp: "opcode p \<noteq> ATT_READ_BY_GROUP_TYPE_RSP"
  shows "dps_body sh result h =
     (Return True, sh, result,
      (snd (l2cap_write (AttReadByNTypeReq True sh 0xffff PRIMARY_SERVICE) h))\<lparr>attPDURing := ps\<rparr>)"
proof -
  let ?req = "AttReadByNTypeReq True sh 0xffff PRIMARY_SERVICE"
  have s: "send ?req h = (Return True, snd (l2cap_write ?req h))"
    using c mtu wr by (intro send_ok) simp_all
  have rn: "receiveNext (snd (l2cap_write ?req h)) =
       (Return p, (snd (l2cap_write ?req h))\<lparr>attPDURing := ps\<rparr>)"
    by (simp add: receiveNext_def l2cap_write_fields ring)
  show ?thesis
    by (simp add: dps_body_def s rn grp)
qed

lemma dps_loop_run:
  assumes "State_less Disconnected (state h)" and "l2_isOpen (l2cap h)"
    and "State_less Disconnected (l2_state (l2cap h))"
    and "7 \<le> uint (usedMTU h)"
    and "\<forall>k \<le> length rsps. l2_write_result (l2cap h) (l2_writes (l2cap h) + k) = 7"
    and "attPDURing h = rsps @ fin # rest"
    and "\<forall>p \<in> set rsps. opcode p = ATT_READ_BY_GROUP_TYPE_RSP \<and> wf_group_rsp p \<and>
            last_end_handle p < 0xffff"
    and "opcode fin \<noteq> ATT_READ_BY_GROUP_TYPE_RSP \<or>
         (wf_group_rsp fin \<and> last_end_handle fin = 0xffff)"
  shows "\<exists>h'. dps_loop sh result h =
           (Return (),
            result @ concat (map (\<lambda>p. map service_of_element (rsp_elements p))
               (rsps @ (if opcode fin = ATT_READ_BY_GROUP_TYPE_RSP then [fin] else []))), h') \<and>
         attPDURing h' = rest \<and>
         trace h' = trace h @
           map (\<lambda>s. L2CAP_write (AttReadByNTypeReq True s 0xffff PRIMARY_SERVICE) 7)
             (sh # map (\<lambda>p. last_end_handle p + 1) rsps)"
  using assms
proof (induction rsps arbitrary: h sh result)
  case Nil
  let ?req = "AttReadByNTypeReq True sh 0xffff PRIMARY_SERVICE"
  let ?h' = "(snd (l2cap_write ?req h))\<lparr>attPDURing := rest\<rparr>"
  from Nil.prems(5) have wr: "l2_write_result (l2cap h) (l2_writes (l2cap h)) = 7" by simp
  from Nil.prems(6) have ring: "attPDURing h = fin # rest" by simp
  have tr: "trace ?h' = trace h @ [L2CAP_write ?req 7]"
    by (simp add: l2cap_write_fields wr)
  show ?case
  proof (cases "opcode fin = ATT_READ_BY_GROUP_TYPE_RSP")
    case True
    with Nil.prems(8) have wf: "wf_group_rsp fin" and le: "last_end_handle fin = 0xffff" by auto
    have "dps_loop sh result h = (Return (), result @ map service_of_element (rsp_elements fin), ?h')"
      by (subst dps_loop.simps)
         (simp add: dps_body_group [OF Nil.prems(1-4) wr ring True wf] le)
    with True tr show ?thesis by simp
  next
    case False
    have "dps_loop sh result h = (Return (), result, ?h')"
      by (subst dps_loop.simps)
         (simp add: dps_body_other [OF Nil.prems(1-4) wr ring False])
    with False tr show ?thesis by simp
  qed
next
  case (Cons p rsps)
  let ?req = "AttReadByNTypeReq True sh 0xffff PRIMARY_SERVICE"
  let ?h1 = "(snd (l2cap_write ?req h))\<lparr>attPDURing := rsps @ fin # rest\<rparr>"
  let ?sh1 = "last_end_handle p + 1"
  let ?res1 = "result @ map service_of_element (rsp_elements p)"
  from Cons.prems(5) have wr: "l2_write_result (l2cap h) (l2_writes (l2cap h)) = 7"
    by (metis add_0_right le0)
  from Cons.prems(6) have ring: "attPDURing h = p # (rsps @ fin # rest)" by simp
  from Cons.prems(7) have grp: "opcode p = ATT_READ_BY_GROUP_TYPE_RSP" and wf: "wf_group_rsp p"
    and lt: "last_end_handle p < 0xffff" by auto
  have step: "dps_loop sh result h = dps_loop ?sh1 ?res1 ?h1"
    by (subst dps_loop.simps)
       (simp add: dps_body_group [OF Cons.prems(1-4) wr ring grp wf] lt)
  have wr1: "\<forall>k \<le> length rsps. l2_write_result (l2cap ?h1) (l2_writes (l2cap ?h1) + k) = 7"
  proof (intro allI impI)
    fix k assume "k \<le> length rsps"
    then have "Suc k \<le> length (p # rsps)" by simp
    with Cons.prems(5) have "l2_write_result (l2cap h) (l2_writes (l2cap h) + Suc k) = 7"
      by blast
    then show "l2_write_result (l2cap ?h1) (l2_writes (l2cap ?h1) + k) = 7"
      by (simp add: l2cap_write_fields)
  qed
  have "\<exists>h'. dps_loop ?sh1 ?res1 ?h1 =
           (Return (),
            ?res1 @ concat (map (\<lambda>p. map service_of_element (rsp_elements p))
               (rsps @ (if opcode fin = ATT_READ_BY_GROUP_TYPE_RSP then [fin] else []))), h') \<and>
         attPDURing h' = rest \<and>
         trace h' = trace ?h1 @
           map (\<lambda>s. L2CAP_write (AttReadByNTypeReq True s 0xffff PRIMARY_SERVICE) 7)
             (?sh1 # map (\<lambda>p. last_end_handle p + 1) rsps)"
  proof (rule Cons.IH)
    show "State_less Disconnected (state ?h1)" using Cons.prems(1) by (simp add: l2cap_write_fields)
    show "l2_isOpen (l2cap ?h1)" using Cons.prems(2) by (simp add: l2cap_write_fields)
    show "State_less Disconnected (l2_state (l2cap ?h1))"
      using Cons.prems(3) by (simp add: l2cap_write_fields)
    show "7 \<le> uint (usedMTU ?h1)" using Cons.prems(4) by (simp add: l2cap_write_fields)
    show "\<forall>k \<le> length rsps. l2_write_result (l2cap ?h1) (l2_writes (l2cap ?h1) + k) = 7"
      by (rule wr1)
    show "attPDURing ?h1 = rsps @ fin # rest" by simp
    show "\<forall>p \<in> set rsps. opcode p = ATT_READ_BY_GROUP_TYPE_RSP \<and> wf_group_rsp p \<and>
            last_end_handle p < 0xffff"
      using Cons.prems(7) by simp
    show "opcode fin \<noteq> ATT_READ_BY_GROUP_TYPE_RSP \<or>
         (wf_group_rsp fin \<and> last_end_handle fin = 0xffff)"
      by (rule Cons.prems(8))
  qed
  then obtain h' where
    r: "dps_loop ?sh1 ?res1 ?h1 =
           (Return (),
            ?res1 @ concat (map (\<lambda>p. map service_of_element (rsp_elements p))
               (rsps @ (if opcode fin = ATT_READ_BY_GROUP_TYPE_RSP then [fin] else []))), h')"
    and ring': "attPDURing h' = rest"
    and tr': "trace h' = trace ?h1 @
           map (\<lambda>s. L2CAP_write (AttReadByNTypeReq True s 0xffff PRIMARY_SERVICE) 7)
             (?sh1 # map (\<lambda>p. last_end_handle p + 1) rsps)"
    by blast
  have tr1: "trace ?h1 = trace h @ [L2CAP_write ?req 7]"
    by (simp add: l2cap_write_fields wr)
  show ?case
    unfolding step r using ring' tr' tr1 by simp
qed

text \<open>
  Claim C5, as stated, fails: the loop also finishes on a response that is neither a
  group response nor an error response.  On an \<^verbatim>\<open>ATT_WRITE_RSP\<close> the pass sets
  \<^verbatim>\<open>done\<close> and the discovery returns, with no service.
\<close>

theorem discoverPrimaryServices_finish_counterexample:
  "\<not> dps_claimed_finish \<lparr>opcode = ATT_WRITE_RSP, pdu = [0x13]\<rparr> \<and>
   fst (dps_body 0x0001 []
          (example_connected (\<lambda>n. 7) [\<lparr>opcode = ATT_WRITE_RSP, pdu = [0x13]\<rparr>])) = Return True \<and>
   fst (discoverPrimaryServices
          (example_connected (\<lambda>n. 7) [\<lparr>opcode = ATT_WRITE_RSP, pdu = [0x13]\<rparr>])) = Return False"
proof -
  have b: "dps_body 0x0001 []
          (example_connected (\<lambda>n. 7) [\<lparr>opcode = ATT_WRITE_RSP, pdu = [0x13]\<rparr>])
     = (Return True, 0x0001, [],
        (snd (l2cap_write (AttReadByNTypeReq True 0x0001 0xffff PRIMARY_SERVICE)
           (example_connected (\<lambda>n. 7) [\<lparr>opcode = ATT_WRITE_RSP, pdu = [0x13]\<rparr>])))
          \<lparr>attPDURing := []\<rparr>)"
    by (rule dps_body_other [where p = "\<lparr>opcode = ATT_WRITE_RSP, pdu = [0x13]\<rparr>" and ps = "[]"])
       (simp_all add: example_connected_def example_handler_def example_l2cap_def State_less_def)
  show ?thesis
    by (simp add: dps_claimed_finish_def discoverPrimaryServices_def dps_loop.simps b)
qed

text \<open>
  Claim C5, amended.  In a connected engine whose requests are written in full, let
  the ring hold group responses \<open>rsps\<close>, each well formed with a last end handle below
  \<open>0xFFFF\<close>, followed by \<open>fin\<close>, which is a well-formed group response whose last end
  handle is \<open>0xFFFF\<close> or a PDU of any other opcode (\<^verbatim>\<open>ATT_ERROR_RSP\<close> or not).  Then
  \<^verbatim>\<open>discoverPrimaryServices\<close> returns after taking exactly these PDUs; its result holds
  one service \<open>{start, end, uuid}\<close> per element of each group response, in order; and
  the requests it wrote start at handle 1 and then at the last end handle of the
  previous response plus 1.
\<close>

theorem discoverPrimaryServices_run:
  assumes "State_less Disconnected (state h)" and "l2_isOpen (l2cap h)"
    and "State_less Disconnected (l2_state (l2cap h))"
    and "7 \<le> uint (usedMTU h)"
    and "\<forall>k \<le> length rsps. l2_write_result (l2cap h) (l2_writes (l2cap h) + k) = 7"
    and "attPDURing h = rsps @ fin # rest"
    and "\<forall>p \<in> set rsps. opcode p = ATT_READ_BY_GROUP_TYPE_RSP \<and> wf_group_rsp p \<and>
            last_end_handle p < 0xffff"
    and "opcode fin \<noteq> ATT_READ_BY_GROUP_TYPE_RSP \<or>
         (wf_group_rsp fin \<and> last_end_handle fin = 0xffff)"
  shows "\<exists>h'. discoverPrimaryServices h =
           (Return (concat (map (\<lambda>p. map service_of_element (rsp_elements p))
                      (rsps @ (if opcode fin = ATT_READ_BY_GROUP_TYPE_RSP then [fin] else []))) \<noteq> []),
            concat (map (\<lambda>p. map service_of_element (rsp_elements p))
               (rsps @ (if opcode fin = ATT_READ_BY_GROUP_TYPE_RSP then [fin] else []))), h') \<and>
         attPDURing h' = rest \<and>
         trace h' = trace h @
           map (\<lambda>s. L2CAP_write (AttReadByNTypeReq True s 0xffff PRIMARY_SERVICE) 7)
             (0x0001 # map (\<lambda>p. last_end_handle p + 1) rsps)"
proof -
  from dps_loop_run [OF assms, of "0x0001" "[]"] obtain h' where
    "dps_loop 0x0001 [] h =
           (Return (),
            [] @ concat (map (\<lambda>p. map service_of_element (rsp_elements p))
               (rsps @ (if opcode fin = ATT_READ_BY_GROUP_TYPE_RSP then [fin] else []))), h')"
    "attPDURing h' = rest"
    "trace h' = trace h @
           map (\<lambda>s. L2CAP_write (AttReadByNTypeReq True s 0xffff PRIMARY_SERVICE) 7)
             (0x0001 # map (\<lambda>p. last_end_handle p + 1) rsps)"
    by blast
  then show ?thesis
    by (simp add: discoverPrimaryServices_def)
qed

lemma example_group_rsp_facts:
  "wf_group_rsp example_group_rsp"
  "last_end_handle example_group_rsp = 0x000B"
  "map service_of_element (rsp_elements example_group_rsp) =
     [\<lparr>srv_declaration = \<lparr>range_type = Service, startHandle = 0x0001, endHandle = 0x0007,
                           range_uuid = uuid16_t 0x1800\<rparr>, characteristicDeclList = []\<rparr>,
      \<lparr>srv_declaration = \<lparr>range_type = Service, startHandle = 0x0008, endHandle = 0x000B,
                           range_uuid = uuid16_t 0x180A\<rparr>, characteristicDeclList = []\<rparr>]"
proof -
  have ts: "element_total_size example_group_rsp = 6"
    by (simp add: element_total_size_def example_group_rsp_def)
  have ec: "element_count example_group_rsp = 2"
    by (simp add: element_count_def ts) (simp add: example_group_rsp_def)
  show "wf_group_rsp example_group_rsp"
    by (simp add: wf_group_rsp_def ts ec) (simp add: example_group_rsp_def)
  have up: "[0..<2] = [0, Suc 0]" by (simp add: upt_rec)
  have els: "rsp_elements example_group_rsp =
      [[0x01, 0x00, 0x07, 0x00, 0x00, 0x18], [0x08, 0x00, 0x0B, 0x00, 0x0A, 0x18]]"
    by (simp add: rsp_elements_def ec up rsp_element_def ts) (simp add: example_group_rsp_def)
  show "last_end_handle example_group_rsp = 0x000B"
    by (simp add: last_end_handle_def els le16_def le_value_def)
  show "map service_of_element (rsp_elements example_group_rsp) =
     [\<lparr>srv_declaration = \<lparr>range_type = Service, startHandle = 0x0001, endHandle = 0x0007,
                           range_uuid = uuid16_t 0x1800\<rparr>, characteristicDeclList = []\<rparr>,
      \<lparr>srv_declaration = \<lparr>range_type = Service, startHandle = 0x0008, endHandle = 0x000B,
                           range_uuid = uuid16_t 0x180A\<rparr>, characteristicDeclList = []\<rparr>]"
    by (simp add: els service_of_element_def le16_def le_value_def uuid_of_octets_def)
qed

text \<open>The spec's scenario: two services, the second request from handle 12, then an error.\<close>

theorem discoverPrimaryServices_run_witness:
  "wf_group_rsp example_group_rsp \<and> last_end_handle example_group_rsp < 0xffff \<and>
   opcode example_error_rsp \<noteq> ATT_READ_BY_GROUP_TYPE_RSP \<and>
   (\<exists>h'. discoverPrimaryServices
            (example_connected (\<lambda>n. 7) [example_group_rsp, example_error_rsp]) =
          (Return True,
           [\<lparr>srv_declaration = \<lparr>range_type = Service, startHandle = 0x0001, endHandle = 0x0007,
                                 range_uuid = uuid16_t 0x1800\<rparr>, characteristicDeclList = []\<rparr>,
            \<lparr>srv_declaration = \<lparr>range_type = Service, startHandle = 0x0008, endHandle = 0x000B,
                                 range_uuid = uuid16_t 0x180A\<rparr>, characteristicDeclList = []\<rparr>],
           h') \<and>
          attPDURing h' = [] \<and>
          trace h' =
            [L2CAP_write (AttReadByNTypeReq True 0x0001 0xffff PRIMARY_SERVICE) 7,
             L2CAP_write (AttReadByNTypeReq True 0x000C 0xffff PRIMARY_SERVICE) 7])"
proof -
  note f = example_group_rsp_facts
  have g: "opcode example_group_rsp = ATT_READ_BY_GROUP_TYPE_RSP"
    by (simp add: example_group_rsp_def)
  have e: "opcode example_error_rsp \<noteq> ATT_READ_BY_GROUP_TYPE_RSP"
    by (simp add: example_error_rsp_def)
  from discoverPrimaryServices_run
    [of "example_connected (\<lambda>n. 7) [example_group_rsp, example_error_rsp]"
        "[example_group_rsp]" example_error_rsp "[]"]
  show ?thesis
    using f g e
    by (simp add: example_connected_def example_handler_def example_l2cap_def State_less_def)
qed

section \<open>Reading a characteristic value\<close>

lemma getValue_eq: "getValue p = Inr v \<Longrightarrow> v = drop 1 (pdu p)"
  by (auto simp: getValue_def split: if_splits)

lemma getValue_Inl: "getValue p = Inl e \<Longrightarrow> pdu p = []"
  by (auto simp: getValue_def split: if_splits)

lemma rcv_body_taken:
  assumes "rcv_body decl offset res h = (r, offset', res', h')"
  shows "\<exists>taken. attPDURing h = taken @ attPDURing h' \<and>
           res' = res @ concat (map rcv_value taken) \<and>
           offset' = offset + int (length (concat (map rcv_value taken)))"
proof -
  let ?req = "if 0 = offset then AttReadReq (handle decl)
              else AttReadBlobReq (handle decl) (of_int offset)"
  obtain r1 h1 where s: "send ?req h = (r1, h1)" by (cases "send ?req h")
  from send_effect [OF s] have ring1: "attPDURing h1 = attPDURing h" by simp
  have s': "(if 0 = offset then send (AttReadReq (handle decl)) h
             else send (AttReadBlobReq (handle decl) (of_int offset)) h) = (r1, h1)"
    using s by (simp split: if_splits)
  show ?thesis
  proof (cases "r1 = Return True")
    case False
    with assms s' ring1 have "attPDURing h' = attPDURing h \<and> res' = res \<and> offset' = offset"
      by (auto simp: rcv_body_def split: result.splits if_splits)
    then show ?thesis by (intro exI [of _ "[]"]) simp
  next
    case True
    show ?thesis
    proof (cases "attPDURing h")
      case Nil
      with assms s' ring1 True have "attPDURing h' = attPDURing h \<and> res' = res \<and> offset' = offset"
        by (auto simp: rcv_body_def receiveNext_def)
      then show ?thesis by (intro exI [of _ "[]"]) simp
    next
      case (Cons p ps)
      with ring1 have rn: "receiveNext h1 = (Return p, h1\<lparr>attPDURing := ps\<rparr>)"
        by (simp add: receiveNext_def)
      from assms have "attPDURing h' = ps \<and>
          ((res' = res \<and> offset' = offset \<and> rcv_value p = []) \<or>
           (res' = res @ rcv_value p \<and> offset' = offset + int (length (rcv_value p))))"
        unfolding rcv_body_def s' True
        by (auto simp: rn rcv_value_def dest: getValue_eq getValue_Inl split: sum.splits if_splits)
      then show ?thesis
        using Cons by (intro exI [of _ "[p]"]) auto
    qed
  qed
qed

lemma rcv_loop_taken:
  "rcv_loop decl el offset res h = (r, offset', res', h') \<Longrightarrow>
     \<exists>taken. attPDURing h = taken @ attPDURing h' \<and>
       res' = res @ concat (map rcv_value taken) \<and>
       offset' = offset + int (length (concat (map rcv_value taken)))"
proof (induction decl el offset res h rule: rcv_loop.induct)
  case (1 decl el offset res h)
  show ?case
  proof (cases "rcv_break el offset")
    case True
    with "1.prems" have "offset' = offset \<and> res' = res \<and> h' = h"
      by (subst (asm) rcv_loop.simps) simp
    then show ?thesis by (intro exI [of _ "[]"]) simp
  next
    case False
    obtain rb ob resb hb where b: "rcv_body decl offset res h = (rb, ob, resb, hb)"
      by (cases "rcv_body decl offset res h")
    from rcv_body_taken [OF b] obtain t1 where
      t1: "attPDURing h = t1 @ attPDURing hb" "resb = res @ concat (map rcv_value t1)"
        "ob = offset + int (length (concat (map rcv_value t1)))" by blast
    show ?thesis
    proof (cases "rb = Return False")
      case True
      with "1.prems" False b have rec: "rcv_loop decl el ob resb hb = (r, offset', res', h')"
        by (subst (asm) rcv_loop.simps) simp
      from "1.IH" [OF False b [symmetric] _ refl refl _ rec] True
      obtain t2 where
        t2: "attPDURing hb = t2 @ attPDURing h'" "res' = resb @ concat (map rcv_value t2)"
          "offset' = ob + int (length (concat (map rcv_value t2)))" by auto
      show ?thesis
        using t1 t2 by (intro exI [of _ "t1 @ t2"]) simp
    next
      case False2: False
      with "1.prems" False b have "offset' = ob \<and> res' = resb \<and> h' = hb"
        by (subst (asm) rcv_loop.simps) (auto split: result.splits if_splits)
      with t1 show ?thesis by blast
    qed
  qed
qed

lemma rcv_loop_step:
  assumes c: "State_less Disconnected (state h)" "l2_isOpen (l2cap h)"
      "State_less Disconnected (l2_state (l2cap h))"
    and mtu: "5 \<le> uint (usedMTU h)"
    and wr: "l2_write_result (l2cap h) (l2_writes (l2cap h)) =
               getSize (if 0 = offset then AttReadReq (handle decl)
                        else AttReadBlobReq (handle decl) (of_int offset))"
    and ring: "attPDURing h = p # ps"
    and ne: "pdu p \<noteq> []"
    and err: "opcode p = ATT_ERROR_RSP \<longrightarrow> 5 \<le> length (pdu p)"
    and nb: "\<not> rcv_break el offset"
  shows "rcv_loop decl el offset res h =
     (if (opcode p = ATT_READ_RSP \<or> opcode p = ATT_READ_BLOB_RSP \<and> rcv_value p \<noteq> []) \<and>
         \<not> int (length (rcv_value p)) < uint (usedMTU h) - 1
      then rcv_loop decl el (offset + int (length (rcv_value p))) (res @ rcv_value p)
             ((snd (l2cap_write (if 0 = offset then AttReadReq (handle decl)
                                 else AttReadBlobReq (handle decl) (of_int offset)) h))
                \<lparr>attPDURing := ps\<rparr>)
      else (Return (), offset + int (length (rcv_value p)), res @ rcv_value p,
            (snd (l2cap_write (if 0 = offset then AttReadReq (handle decl)
                               else AttReadBlobReq (handle decl) (of_int offset)) h))
              \<lparr>attPDURing := ps\<rparr>))"
proof -
  define req where "req = (if 0 = offset then AttReadReq (handle decl)
              else AttReadBlobReq (handle decl) (of_int offset))"
  define h1 where "h1 = (snd (l2cap_write req h))\<lparr>attPDURing := ps\<rparr>"
  have fits: "getSize req \<le> uint (usedMTU h)" using mtu by (simp add: req_def)
  have wr': "l2_write_result (l2cap h) (l2_writes (l2cap h)) = getSize req"
    using wr by (simp add: req_def)
  have s: "send req h = (Return True, snd (l2cap_write req h))"
    by (rule send_ok [OF c fits wr'])
  have s': "(if 0 = offset then send (AttReadReq (handle decl)) h
             else send (AttReadBlobReq (handle decl) (of_int offset)) h)
            = (Return True, snd (l2cap_write req h))"
    using s by (simp add: req_def split: if_splits)
  have rn: "receiveNext (snd (l2cap_write req h)) = (Return p, h1)"
    by (simp add: receiveNext_def l2cap_write_fields ring h1_def)
  have gv: "getValue p = Inr (drop 1 (pdu p))" using ne by (simp add: getValue_def)
  have sz: "getPDUValueSize p = int (length (drop 1 (pdu p)))"
    using ne by (cases "pdu p") (simp_all add: getPDUValueSize_def)
  have ec: "opcode p = ATT_ERROR_RSP \<Longrightarrow> \<exists>c. getErrorCode p = Inr c"
    using err by (simp add: getErrorCode_def pdu_get_uint8_def peek_def)
  have mt: "usedMTU h1 = usedMTU h" by (simp add: l2cap_write_fields h1_def)
  have body: "rcv_body decl offset res h =
      (Return (\<not> ((opcode p = ATT_READ_RSP \<or> opcode p = ATT_READ_BLOB_RSP \<and> rcv_value p \<noteq> []) \<and>
                   \<not> int (length (rcv_value p)) < uint (usedMTU h) - 1)),
       offset + int (length (rcv_value p)), res @ rcv_value p, h1)"
    unfolding rcv_body_def s'
    using ec by (auto simp: rn gv sz mt rcv_value_def getMaxPDUValueSize_def)
  show ?thesis
    unfolding req_def [symmetric] h1_def [symmetric]
    by (subst rcv_loop.simps) (auto simp: nb body)
qed

text \<open>
  Claim C2, amended.  (1) Whatever the outcome, the loop takes a prefix of the ring,
  \<open>res\<close> grows by the values of the taken \<^verbatim>\<open>ATT_READ_RSP\<close> and \<^verbatim>\<open>ATT_READ_BLOB_RSP\<close>
  PDUs in arrival order, and \<open>offset\<close> advances by their total size.  (2) When one of
  the two tests at the loop's head holds (the expected length is reached, or no
  length is expected and the offset is positive), the loop ends without a request.
  (3) Otherwise, in a connected engine whose request is written in full and answered
  by \<open>p\<close>: the loop goes on, with the value appended, exactly when \<open>p\<close> is an
  \<^verbatim>\<open>ATT_READ_RSP\<close> or a non-empty \<^verbatim>\<open>ATT_READ_BLOB_RSP\<close> whose payload is not shorter than
  \<open>usedMTU - 1\<close>; it ends on a shorter payload (appended first), on an empty blob, on
  an \<^verbatim>\<open>ATT_ERROR_RSP\<close> of any error code, and on a PDU of any other opcode.
\<close>

theorem readCharacteristicValue_loop:
  "(rcv_loop decl el offset res h = (r, offset', res', h') \<longrightarrow>
      (\<exists>taken. attPDURing h = taken @ attPDURing h' \<and>
         res' = res @ concat (map rcv_value taken) \<and>
         offset' = offset + int (length (concat (map rcv_value taken))))) \<and>
   (rcv_break el offset \<longrightarrow> rcv_loop decl el offset res h = (Return (), offset, res, h)) \<and>
   (\<not> rcv_break el offset \<and>
    State_less Disconnected (state h) \<and> l2_isOpen (l2cap h) \<and>
    State_less Disconnected (l2_state (l2cap h)) \<and> 5 \<le> uint (usedMTU h) \<and>
    l2_write_result (l2cap h) (l2_writes (l2cap h)) =
      getSize (if 0 = offset then AttReadReq (handle decl)
               else AttReadBlobReq (handle decl) (of_int offset)) \<and>
    attPDURing h = p # ps \<and> pdu p \<noteq> [] \<and> (opcode p = ATT_ERROR_RSP \<longrightarrow> 5 \<le> length (pdu p)) \<longrightarrow>
    rcv_loop decl el offset res h =
     (if (opcode p = ATT_READ_RSP \<or> opcode p = ATT_READ_BLOB_RSP \<and> rcv_value p \<noteq> []) \<and>
         \<not> int (length (rcv_value p)) < uint (usedMTU h) - 1
      then rcv_loop decl el (offset + int (length (rcv_value p))) (res @ rcv_value p)
             ((snd (l2cap_write (if 0 = offset then AttReadReq (handle decl)
                                 else AttReadBlobReq (handle decl) (of_int offset)) h))
                \<lparr>attPDURing := ps\<rparr>)
      else (Return (), offset + int (length (rcv_value p)), res @ rcv_value p,
            (snd (l2cap_write (if 0 = offset then AttReadReq (handle decl)
                               else AttReadBlobReq (handle decl) (of_int offset)) h))
              \<lparr>attPDURing := ps\<rparr>)))"
proof (intro conjI impI)
  assume "rcv_loop decl el offset res h = (r, offset', res', h')"
  then show "\<exists>taken. attPDURing h = taken @ attPDURing h' \<and>
         res' = res @ concat (map rcv_value taken) \<and>
         offset' = offset + int (length (concat (map rcv_value taken)))"
    by (rule rcv_loop_taken)
next
  assume "rcv_break el offset"
  then show "rcv_loop decl el offset res h = (Return (), offset, res, h)"
    by (subst rcv_loop.simps) simp
next
  assume a: "\<not> rcv_break el offset \<and>
    State_less Disconnected (state h) \<and> l2_isOpen (l2cap h) \<and>
    State_less Disconnected (l2_state (l2cap h)) \<and> 5 \<le> uint (usedMTU h) \<and>
    l2_write_result (l2cap h) (l2_writes (l2cap h)) =
      getSize (if 0 = offset then AttReadReq (handle decl)
               else AttReadBlobReq (handle decl) (of_int offset)) \<and>
    attPDURing h = p # ps \<and> pdu p \<noteq> [] \<and> (opcode p = ATT_ERROR_RSP \<longrightarrow> 5 \<le> length (pdu p))"
  show "rcv_loop decl el offset res h =
     (if (opcode p = ATT_READ_RSP \<or> opcode p = ATT_READ_BLOB_RSP \<and> rcv_value p \<noteq> []) \<and>
         \<not> int (length (rcv_value p)) < uint (usedMTU h) - 1
      then rcv_loop decl el (offset + int (length (rcv_value p))) (res @ rcv_value p)
             ((snd (l2cap_write (if 0 = offset then AttReadReq (handle decl)
                                 else AttReadBlobReq (handle decl) (of_int offset)) h))
                \<lparr>attPDURing := ps\<rparr>)
      else (Return (), offset + int (length (rcv_value p)), res @ rcv_value p,
            (snd (l2cap_write (if 0 = offset then AttReadReq (handle decl)
                               else AttReadBlobReq (handle decl) (of_int offset)) h))
              \<lparr>attPDURing := ps\<rparr>))"
    by (rule rcv_loop_step) (use a in blast)+
qed

text \<open>
  Claim C2, as stated, fails in its ``exactly when'': the loop also ends on a reply
  that matches none of the five reasons.  With an expected length of 100 and the
  MTU at 23, an \<^verbatim>\<open>ATT_READ_BY_TYPE_RSP\<close> of 23 octets sets \<^verbatim>\<open>done\<close>, and the read returns
  false with nothing appended.
\<close>

theorem readCharacteristicValue_stop_counterexample:
  "\<not> rcv_claimed_stop 23 100 0 example_unexpected_rsp \<and>
   rcv_body example_decl 0 [] (example_connected (\<lambda>n. 3) [example_unexpected_rsp]) =
     (Return True, 0, [],
      (snd (l2cap_write (AttReadReq 0x0003) (example_connected (\<lambda>n. 3) [example_unexpected_rsp])))
        \<lparr>attPDURing := []\<rparr>) \<and>
   fst (readCharacteristicValue example_decl [] 100
          (example_connected (\<lambda>n. 3) [example_unexpected_rsp])) = Return False"
proof -
  have c: "\<not> rcv_claimed_stop 23 100 0 example_unexpected_rsp"
    by (simp add: rcv_claimed_stop_def example_unexpected_rsp_def)
  have b: "rcv_body example_decl 0 [] (example_connected (\<lambda>n. 3) [example_unexpected_rsp]) =
     (Return True, 0, [],
      (snd (l2cap_write (AttReadReq 0x0003) (example_connected (\<lambda>n. 3) [example_unexpected_rsp])))
        \<lparr>attPDURing := []\<rparr>)"
    by (simp add: rcv_body_def send_def validateState_def receiveNext_def l2cap_write_def Let_def
          State_less_def example_connected_def example_handler_def example_l2cap_def
          example_decl_def example_unexpected_rsp_def)
  have "rcv_loop example_decl 100 0 [] (example_connected (\<lambda>n. 3) [example_unexpected_rsp]) =
     (Return (), 0, [],
      (snd (l2cap_write (AttReadReq 0x0003) (example_connected (\<lambda>n. 3) [example_unexpected_rsp])))
        \<lparr>attPDURing := []\<rparr>)"
    by (subst rcv_loop.simps) (simp add: b rcv_break_def)
  then have "fst (readCharacteristicValue example_decl [] 100
          (example_connected (\<lambda>n. 3) [example_unexpected_rsp])) = Return False"
    by (simp add: readCharacteristicValue_def)
  with c b show ?thesis by simp
qed

text \<open>A read of six octets in two responses, with an expected length of 6.\<close>

theorem readCharacteristicValue_loop_witness:
  "\<not> rcv_break 6 0 \<and>
   attPDURing example_reading = [example_read_rsp, example_blob_rsp] \<and>
   (\<exists>h'. rcv_loop example_decl 6 0 [] example_reading =
            (Return (), 6, [0x41, 0x42, 0x43, 0x44, 0x45, 0x46], h') \<and>
          attPDURing h' = [] \<and>
          trace h' = [L2CAP_write (AttReadReq 0x0003) 3,
                      L2CAP_write (AttReadBlobReq 0x0003 0x0004) 5])"
proof -
  let ?h1 = "(snd (l2cap_write (AttReadReq 0x0003) example_reading))
               \<lparr>attPDURing := [example_blob_rsp]\<rparr>"
  let ?h2 = "(snd (l2cap_write (AttReadBlobReq 0x0003 0x0004) ?h1))\<lparr>attPDURing := []\<rparr>"
  have v1: "rcv_value example_read_rsp = [0x41, 0x42, 0x43, 0x44]"
      "opcode example_read_rsp = ATT_READ_RSP" "pdu example_read_rsp \<noteq> []"
    by (simp_all add: rcv_value_def example_read_rsp_def)
  have v2: "rcv_value example_blob_rsp = [0x45, 0x46]"
      "opcode example_blob_rsp = ATT_READ_BLOB_RSP" "pdu example_blob_rsp \<noteq> []"
    by (simp_all add: rcv_value_def example_blob_rsp_def)
  have d: "handle example_decl = 0x0003" by (simp add: example_decl_def)
  have e: "State_less Disconnected (state example_reading)" "l2_isOpen (l2cap example_reading)"
      "State_less Disconnected (l2_state (l2cap example_reading))"
      "usedMTU example_reading = 5" "l2_writes (l2cap example_reading) = 0"
      "l2_write_result (l2cap example_reading) = (\<lambda>n. if n = 0 then 3 else 5)"
      "attPDURing example_reading = [example_read_rsp, example_blob_rsp]"
      "trace example_reading = []"
    by (simp_all add: State_less_def example_reading_def example_connected_def
          example_handler_def example_l2cap_def)
  have nb: "\<not> rcv_break 6 0" "\<not> rcv_break 6 4" by (simp_all add: rcv_break_def)
  have s1: "rcv_loop example_decl 6 0 [] example_reading
              = rcv_loop example_decl 6 4 [0x41, 0x42, 0x43, 0x44] ?h1"
    using readCharacteristicValue_loop [where decl = example_decl and el = 6 and offset = 0
        and res = "[]" and h = example_reading and p = example_read_rsp
        and ps = "[example_blob_rsp]", THEN conjunct2, THEN conjunct2]
    by (simp add: v1 d e nb)
  have s2: "rcv_loop example_decl 6 4 [0x41, 0x42, 0x43, 0x44] ?h1
              = (Return (), 6, [0x41, 0x42, 0x43, 0x44, 0x45, 0x46], ?h2)"
    using readCharacteristicValue_loop [where decl = example_decl and el = 6 and offset = 4
        and res = "[0x41, 0x42, 0x43, 0x44]" and h = ?h1 and p = example_blob_rsp
        and ps = "[]", THEN conjunct2, THEN conjunct2]
    by (simp add: v2 d e nb l2cap_write_fields)
  have t: "trace ?h2 = [L2CAP_write (AttReadReq 0x0003) 3,
                      L2CAP_write (AttReadBlobReq 0x0003 0x0004) 5]"
    by (simp add: l2cap_write_fields e)
  show ?thesis
    using s1 s2 t e(7) nb by simp
qed

section \<open>Client characteristic configuration discovery\<close>

lemma decl_handle_bound_cong:
  assumes "length ds' = length ds"
    and "\<forall>j < length ds. handle (ds' ! j) = handle (ds ! j) \<and>
           service_handle_end (ds' ! j) = service_handle_end (ds ! j)"
    and "j < length ds"
  shows "decl_handle_bound ds' j = decl_handle_bound ds j"
  using assms by (auto simp: decl_handle_bound_def)

lemma cccd_attached_refl: "cccd_attached ring ds ds"
  by (simp add: cccd_attached_def)

lemma cccd_attachedD:
  assumes "cccd_attached ring ds ds'" and "j < length ds"
  shows "handle (ds' ! j) = handle (ds ! j)"
    and "service_handle_end (ds' ! j) = service_handle_end (ds ! j)"
    and "config (ds' ! j) = config (ds ! j) \<or>
          (\<exists>c. config (ds' ! j) = Some c \<and> handle (ds' ! j) < cccd_handle c \<and>
                cccd_handle c \<le> decl_handle_bound ds' j \<and>
                (\<exists>p \<in> set ring. c \<in> set (cccd_candidates p)))"
  using assms unfolding cccd_attached_def by blast+

lemma cccd_attached_trans:
  assumes a: "cccd_attached ring ds ds1" and b: "cccd_attached ring ds1 ds2"
  shows "cccd_attached ring ds ds2"
proof -
  from a b have len: "length ds1 = length ds" "length ds2 = length ds"
    by (simp_all add: cccd_attached_def)
  have hs: "\<forall>j < length ds1. handle (ds2 ! j) = handle (ds1 ! j) \<and>
           service_handle_end (ds2 ! j) = service_handle_end (ds1 ! j)"
    using b by (simp add: cccd_attached_def)
  show ?thesis
    unfolding cccd_attached_def
  proof (intro conjI allI impI)
    show "length ds2 = length ds" by (rule len)
  next
    fix j assume j: "j < length ds"
    then have j1: "j < length ds1" using len by simp
    note a' = cccd_attachedD [OF a j]
    note b' = cccd_attachedD [OF b j1]
    have bd: "decl_handle_bound ds2 j = decl_handle_bound ds1 j"
      using len hs j1 by (intro decl_handle_bound_cong) simp_all
    show "handle (ds2 ! j) = handle (ds ! j)" using a' b' by simp
    show "service_handle_end (ds2 ! j) = service_handle_end (ds ! j)" using a' b' by simp
    show "config (ds2 ! j) = config (ds ! j) \<or>
          (\<exists>c. config (ds2 ! j) = Some c \<and> handle (ds2 ! j) < cccd_handle c \<and>
                cccd_handle c \<le> decl_handle_bound ds2 j \<and>
                (\<exists>p \<in> set ring. c \<in> set (cccd_candidates p)))"
      using a'(3) b' bd by auto
  qed
qed

lemma cccd_attached_mono:
  "cccd_attached ring ds ds' \<Longrightarrow> set ring \<subseteq> set ring' \<Longrightarrow> cccd_attached ring' ds ds'"
  unfolding cccd_attached_def by blast

lemma ccc_attach_at_attached:
  assumes c: "\<lparr>cccd_handle = ch, cccd_value = cv\<rparr> \<in> set (cccd_candidates p)" and p: "p \<in> set ring"
    and j: "j < length ds"
  shows "cccd_attached ring ds (ccc_attach_at ch cv ds j)"
proof (cases "ch > handle (ds ! j) \<and> ch \<le> decl_handle_bound ds j")
  case False
  then have "ccc_attach_at ch cv ds j = ds"
    by (auto simp: ccc_attach_at_def decl_handle_bound_def Let_def)
  then show ?thesis by (simp add: cccd_attached_refl)
next
  case True
  let ?d = "(ds ! j)\<lparr>config := Some \<lparr>cccd_handle = ch, cccd_value = cv\<rparr>\<rparr>"
  from True have eq: "ccc_attach_at ch cv ds j = ds[j := ?d]"
    by (auto simp: ccc_attach_at_def decl_handle_bound_def Let_def)
  have bd: "decl_handle_bound (ds[j := ?d]) k = decl_handle_bound ds k" if "k < length ds" for k
    using that j by (intro decl_handle_bound_cong) (auto simp: nth_list_update)
  show ?thesis
    unfolding eq cccd_attached_def
  proof (intro conjI allI impI)
    show "length (ds[j := ?d]) = length ds" by simp
  next
    fix k assume k: "k < length ds"
    show "handle (ds[j := ?d] ! k) = handle (ds ! k)"
      using k j by (auto simp: nth_list_update)
    show "service_handle_end (ds[j := ?d] ! k) = service_handle_end (ds ! k)"
      using k j by (auto simp: nth_list_update)
    show "config (ds[j := ?d] ! k) = config (ds ! k) \<or>
          (\<exists>c. config (ds[j := ?d] ! k) = Some c \<and> handle (ds[j := ?d] ! k) < cccd_handle c \<and>
                cccd_handle c \<le> decl_handle_bound (ds[j := ?d]) k \<and>
                (\<exists>p \<in> set ring. c \<in> set (cccd_candidates p)))"
    proof (cases "k = j")
      case False
      then show ?thesis using k j by (auto simp: nth_list_update)
    next
      case kj: True
      have "config (ds[j := ?d] ! k) = Some \<lparr>cccd_handle = ch, cccd_value = cv\<rparr>"
        using kj j by simp
      moreover have "handle (ds[j := ?d] ! k) < ch" using kj j True by simp
      moreover have "ch \<le> decl_handle_bound (ds[j := ?d]) k" using kj True bd [OF j] by simp
      ultimately show ?thesis using c p by auto
    qed
  qed
qed

lemma ccc_attach_fold_attached:
  assumes c: "\<lparr>cccd_handle = ch, cccd_value = cv\<rparr> \<in> set (cccd_candidates p)" and p: "p \<in> set ring"
  shows "\<forall>j \<in> set js. j < length ds \<Longrightarrow>
         cccd_attached ring ds (fold (\<lambda>j ds. ccc_attach_at ch cv ds j) js ds)"
proof (induction js arbitrary: ds)
  case Nil
  show ?case by (simp add: cccd_attached_refl)
next
  case (Cons j js)
  let ?ds1 = "ccc_attach_at ch cv ds j"
  from Cons.prems have j: "j < length ds" by simp
  have a: "cccd_attached ring ds ?ds1" by (rule ccc_attach_at_attached [OF c p j])
  then have len: "length ?ds1 = length ds" by (simp add: cccd_attached_def)
  have "cccd_attached ring ?ds1 (fold (\<lambda>j ds. ccc_attach_at ch cv ds j) js ?ds1)"
    using Cons.prems len by (intro Cons.IH) simp
  with a show ?case by (simp add: cccd_attached_trans)
qed

lemma ccc_attach_attached:
  assumes "\<lparr>cccd_handle = ch, cccd_value = cv\<rparr> \<in> set (cccd_candidates p)" and "p \<in> set ring"
  shows "cccd_attached ring ds (ccc_attach ch cv ds)"
  unfolding ccc_attach_def by (rule ccc_attach_fold_attached [OF assms]) simp

lemma getElementTotalSize_Inr:
  assumes "getElementTotalSize p = Inr esz"
  shows "2 \<le> length (pdu p)" and "esz = int (element_total_size p)"
  using assms
  by (auto simp: getElementTotalSize_def pdu_get_uint8_def peek_def element_total_size_def
        split: option.splits if_splits)

lemma getElementCount_Inr:
  assumes "getElementCount p = Inr n"
  shows "2 \<le> length (pdu p)" and "0 < element_total_size p" and "n = int (element_count p)"
proof -
  from assms obtain esz where e: "getElementTotalSize p = Inr esz" and z: "esz \<noteq> 0"
    by (auto simp: getElementCount_def split: sum.splits if_splits)
  note t = getElementTotalSize_Inr [OF e]
  show "2 \<le> length (pdu p)" by (rule t(1))
  show pos: "0 < element_total_size p" using t(2) z by simp
  from rsp_size_facts(2) [OF t(1) pos] assms show "n = int (element_count p)" by simp
qed

lemma element_handle_reads:
  assumes len: "2 \<le> length (pdu p)" and esz: "4 \<le> element_total_size p"
    and i: "i < element_count p"
  shows "pdu_get_uint16 (pdu p) (int (2 + i * element_total_size p)) = Inr (le16 (rsp_element p i))"
    and "pdu_get_uint16 (pdu p) (int (2 + i * element_total_size p) + 2)
           = Inr (le16 (drop 2 (rsp_element p i)))"
proof -
  let ?esz = "element_total_size p"
  let ?k = "2 + i * ?esz"
  have bound: "?k + ?esz \<le> length (pdu p)"
    using element_in_pdu [OF i len] by simp
  have e1: "le16 (rsp_element p i) = le16 (drop ?k (pdu p))"
    using esz by (simp add: rsp_element_def take2_le16)
  have e2: "le16 (drop 2 (rsp_element p i)) = le16 (drop (?k + 2) (pdu p))"
    using esz by (simp add: rsp_element_def drop_take take2_le16 add.commute)
  show "pdu_get_uint16 (pdu p) (int ?k) = Inr (le16 (rsp_element p i))"
    unfolding e1 using bound esz by (intro get_uint16_nat) simp
  have "int ?k + 2 = int (?k + 2)" by simp
  then show "pdu_get_uint16 (pdu p) (int ?k + 2) = Inr (le16 (drop 2 (rsp_element p i)))"
    unfolding e2 using bound esz get_uint16_nat [of "?k + 2" "pdu p"] by simp
qed

lemma ccc_element_attached:
  assumes run: "ccc_element p (int i) ds = Inr ds'" and p: "p \<in> set ring"
    and op: "opcode p = ATT_READ_BY_TYPE_RSP"
    and i: "element_total_size p = 4 \<longrightarrow> i < element_count p"
  shows "cccd_attached ring ds ds'"
proof -
  from run obtain esz where e: "getElementTotalSize p = Inr esz"
    by (auto simp: ccc_element_def and_then_def split: sum.splits)
  note t = getElementTotalSize_Inr [OF e]
  have off: "getElementPDUOffset p (int i) = Inr (int (2 + i * element_total_size p))"
    by (simp add: getElementPDUOffset_def e t(2))
  show ?thesis
  proof (cases "element_total_size p = 4")
    case False
    with run e t(2) off have "ds' = ds"
      by (simp add: ccc_element_def and_then_def)
    then show ?thesis by (simp add: cccd_attached_refl)
  next
    case True
    with i have ic: "i < element_count p" by simp
    have four: "4 \<le> element_total_size p" using True by simp
    note rd = element_handle_reads [OF t(1) four ic]
    from run e t(2) off True rd
    have ds': "ds' = ccc_attach (le16 (rsp_element p i)) (le16 (drop 2 (rsp_element p i))) ds"
      by (simp add: ccc_element_def and_then_def)
    have "cccd_of_element (rsp_element p i) \<in> set (cccd_candidates p)"
      using op True ic by (simp add: cccd_candidates_def rsp_elements_def)
    then have "\<lparr>cccd_handle = le16 (rsp_element p i),
                cccd_value = le16 (drop 2 (rsp_element p i))\<rparr> \<in> set (cccd_candidates p)"
      by (simp add: cccd_of_element_def)
    then show ?thesis unfolding ds' by (rule ccc_attach_attached [OF _ p])
  qed
qed

lemma ccc_elements_attached:
  assumes p: "p \<in> set ring" and op: "opcode p = ATT_READ_BY_TYPE_RSP"
  shows "ccc_elements p js ds = (r, ds') \<Longrightarrow>
         (element_total_size p = 4 \<longrightarrow> (\<forall>i \<in> set js. i < element_count p)) \<Longrightarrow>
         cccd_attached ring ds ds'"
proof (induction js arbitrary: ds)
  case Nil
  then show ?case by (simp add: cccd_attached_refl)
next
  case (Cons i js)
  show ?case
  proof (cases "ccc_element p (int i) ds")
    case (Inl e)
    with Cons.prems(1) have "ds' = ds" by simp
    then show ?thesis by (simp add: cccd_attached_refl)
  next
    case (Inr ds1)
    from Cons.prems(2) have i: "element_total_size p = 4 \<longrightarrow> i < element_count p" by simp
    have a: "cccd_attached ring ds ds1" by (rule ccc_element_attached [OF Inr p op i])
    from Cons.prems(1) Inr have "ccc_elements p js ds1 = (r, ds')" by simp
    then have "cccd_attached ring ds1 ds'" using Cons.prems(2) by (intro Cons.IH) simp_all
    with a show ?thesis by (rule cccd_attached_trans)
  qed
qed

lemma ccc_body_attached:
  assumes "ccc_body sd hnd ds h = (r, hnd', ds', h')"
  shows "cccd_attached (attPDURing h) ds ds' \<and> set (attPDURing h') \<subseteq> set (attPDURing h)"
proof -
  let ?req = "AttReadByNTypeReq False hnd (endHandle sd) CLIENT_CHARACTERISTIC_CONFIGURATION"
  obtain r1 h1 where s: "send ?req h = (r1, h1)" by (cases "send ?req h")
  from send_effect [OF s] have ring1: "attPDURing h1 = attPDURing h" by simp
  show ?thesis
  proof (cases "r1 = Return True")
    case False
    with assms s ring1 have "ds' = ds \<and> attPDURing h' = attPDURing h"
      by (auto simp: ccc_body_def split: result.splits if_splits)
    then show ?thesis by (simp add: cccd_attached_refl)
  next
    case True
    show ?thesis
    proof (cases "attPDURing h")
      case Nil
      with assms s ring1 True have "ds' = ds \<and> attPDURing h' = attPDURing h"
        by (auto simp: ccc_body_def receiveNext_def)
      then show ?thesis by (simp add: cccd_attached_refl)
    next
      case (Cons p ps)
      with ring1 have rn: "receiveNext h1 = (Return p, h1\<lparr>attPDURing := ps\<rparr>)"
        by (simp add: receiveNext_def)
      have pin: "p \<in> set (attPDURing h)" using Cons by simp
      show ?thesis
      proof (cases "opcode p = ATT_READ_BY_TYPE_RSP")
        case False
        with assms s True rn have "ds' = ds \<and> attPDURing h' = ps"
          by (auto simp: ccc_body_def split: if_splits)
        then show ?thesis using Cons by (auto simp: cccd_attached_refl)
      next
        case op: True
        show ?thesis
        proof (cases "getElementCount p")
          case (Inl e)
          with assms s True rn op have "ds' = ds \<and> attPDURing h' = ps"
            by (auto simp: ccc_body_def)
          then show ?thesis using Cons by (auto simp: cccd_attached_refl)
        next
          case (Inr n)
          note c = getElementCount_Inr [OF Inr]
          obtain re ds1 where el: "ccc_elements p [0..<element_count p] ds = (re, ds1)"
            by (cases "ccc_elements p [0..<element_count p] ds")
          have a: "cccd_attached (attPDURing h) ds ds1"
            by (rule ccc_elements_attached [OF pin op el]) simp
          from assms s True rn op Inr c(3) el have "ds' = ds1 \<and> attPDURing h' = ps"
            by (auto simp: ccc_body_def split: sum.splits if_splits)
          with a Cons show ?thesis by auto
        qed
      qed
    qed
  qed
qed

lemma ccc_loop_attached:
  "ccc_loop sd hnd ds h = (r, ds', h') \<Longrightarrow> cccd_attached (attPDURing h) ds ds'"
proof (induction sd hnd ds h rule: ccc_loop.induct)
  case (1 sd hnd ds h)
  obtain rb hb dsb hdb where b: "ccc_body sd hnd ds h = (rb, hb, dsb, hdb)"
    by (cases "ccc_body sd hnd ds h")
  from ccc_body_attached [OF b]
  have a: "cccd_attached (attPDURing h) ds dsb" and sub: "set (attPDURing hdb) \<subseteq> set (attPDURing h)"
    by simp_all
  show ?case
  proof (cases "rb = Return False")
    case True
    with "1.prems" b have rec: "ccc_loop sd hb dsb hdb = (r, ds', h')"
      by (subst (asm) ccc_loop.simps) simp
    from "1.IH" [OF b [symmetric] True refl refl _ rec]
    have "cccd_attached (attPDURing hdb) dsb ds'" by simp
    then have "cccd_attached (attPDURing h) dsb ds'" using sub by (rule cccd_attached_mono)
    with a show ?thesis by (rule cccd_attached_trans)
  next
    case False
    with "1.prems" b have "ds' = dsb"
      by (subst (asm) ccc_loop.simps) (auto split: result.splits if_splits)
    with a show ?thesis by simp
  qed
qed

text \<open>
  Claim C6.  Whatever the responses and however the discovery ends, the service keeps
  its declarations and their handles, and each declaration \<open>c\<close> either keeps the
  configuration it had or has one attached with
  \<open>c.value_handle < c.config.handle \<le>\<close> the next declaration's value handle (for the
  last declaration: the service's end handle that it records), taken from an element
  of an \<^verbatim>\<open>ATT_READ_BY_TYPE_RSP\<close> whose element size is exactly 4.  Where the
  declarations record the end handle of the service's own declaration, as
  \<^verbatim>\<open>discoverCharacteristics\<close> creates them, the bound of the last one is that handle.
\<close>

theorem cccd_attachment_interval:
  assumes "discoverClientCharacteristicConfig service h = (r, service', h')"
  shows "cccd_attached (attPDURing h) (characteristicDeclList service)
           (characteristicDeclList service') \<and>
         ((\<forall>d \<in> set (characteristicDeclList service).
              service_handle_end d = endHandle (srv_declaration service)) \<longrightarrow>
          (\<forall>j < length (characteristicDeclList service').
              decl_handle_bound (characteristicDeclList service') j =
                (if j + 1 < length (characteristicDeclList service')
                 then handle (characteristicDeclList service' ! (j + 1))
                 else endHandle (srv_declaration service'))))"
proof -
  obtain r1 ds1 h1 where l: "ccc_loop (srv_declaration service)
      (startHandle (srv_declaration service)) (characteristicDeclList service) h = (r1, ds1, h1)"
    by (cases "ccc_loop (srv_declaration service)
      (startHandle (srv_declaration service)) (characteristicDeclList service) h")
  from assms l have s': "service' = service\<lparr>characteristicDeclList := ds1\<rparr>"
    by (auto simp: discoverClientCharacteristicConfig_def split: result.splits)
  note a = ccc_loop_attached [OF l]
  have "\<forall>j < length ds1. decl_handle_bound ds1 j =
          (if j + 1 < length ds1 then handle (ds1 ! (j + 1)) else endHandle (srv_declaration service))"
    if e: "\<forall>d \<in> set (characteristicDeclList service).
              service_handle_end d = endHandle (srv_declaration service)"
  proof (intro allI impI)
    fix j assume j: "j < length ds1"
    then have j': "j < length (characteristicDeclList service)"
      using a by (simp add: cccd_attached_def)
    from cccd_attachedD(2) [OF a j'] e j'
    have "service_handle_end (ds1 ! j) = endHandle (srv_declaration service)" by simp
    then show "decl_handle_bound ds1 j =
          (if j + 1 < length ds1 then handle (ds1 ! (j + 1)) else endHandle (srv_declaration service))"
      by (simp add: decl_handle_bound_def)
  qed
  with a show ?thesis unfolding s' by simp
qed

lemma example_ccc_run:
  "\<exists>h'. discoverClientCharacteristicConfig example_service
            (example_connected (\<lambda>n. 7) [example_ccc_rsp, example_error_rsp]) =
     (Return True,
      example_service\<lparr>characteristicDeclList :=
        [example_decl\<lparr>service_handle_end := 0x0009,
                      config := Some \<lparr>cccd_handle = 0x0004, cccd_value = 0x0001\<rparr>\<rparr>,
         example_decl\<lparr>service_handle := 0x0005, service_handle_end := 0x0009,
                      handle := 0x0006, char_uuid := uuid16_t 0x2A01\<rparr>]\<rparr>, h')"
  by (simp add: discoverClientCharacteristicConfig_def ccc_loop.simps ccc_body_def send_def
        validateState_def l2cap_write_def receiveNext_def Let_def State_less_def
        example_connected_def example_handler_def example_l2cap_def example_service_def
        example_decl_def example_ccc_rsp_def example_error_rsp_def
        getElementCount_def getElementTotalSize_def getElementPDUOffset_def getElementHandle_def
        pdu_get_uint8_def pdu_get_uint16_def get_uint16_def get_uintN_def peek_def peek_range_def
        le_value_def ccc_element_def and_then_def ccc_attach_def ccc_attach_at_def upt_rec)

text \<open>
  A service with values at 3 and 6: the configuration at handle 4 is attached to the
  first declaration, whose interval ends at 6.
\<close>

theorem cccd_attachment_interval_witness:
  "(\<exists>h'. discoverClientCharacteristicConfig example_service
            (example_connected (\<lambda>n. 7) [example_ccc_rsp, example_error_rsp]) =
     (Return True,
      example_service\<lparr>characteristicDeclList :=
        [example_decl\<lparr>service_handle_end := 0x0009,
                      config := Some \<lparr>cccd_handle = 0x0004, cccd_value = 0x0001\<rparr>\<rparr>,
         example_decl\<lparr>service_handle := 0x0005, service_handle_end := 0x0009,
                      handle := 0x0006, char_uuid := uuid16_t 0x2A01\<rparr>]\<rparr>, h')) \<and>
   cccd_attached [example_ccc_rsp, example_error_rsp]
     (characteristicDeclList example_service)
     [example_decl\<lparr>service_handle_end := 0x0009,
                   config := Some \<lparr>cccd_handle = 0x0004, cccd_value = 0x0001\<rparr>\<rparr>,
      example_decl\<lparr>service_handle := 0x0005, service_handle_end := 0x0009,
                   handle := 0x0006, char_uuid := uuid16_t 0x2A01\<rparr>] \<and>
   decl_handle_bound
     [example_decl\<lparr>service_handle_end := 0x0009,
                   config := Some \<lparr>cccd_handle = 0x0004, cccd_value = 0x0001\<rparr>\<rparr>,
      example_decl\<lparr>service_handle := 0x0005, service_handle_end := 0x0009,
                   handle := 0x0006, char_uuid := uuid16_t 0x2A01\<rparr>] 0 = 0x0006"
proof -
  from example_ccc_run obtain h' where
    run: "discoverClientCharacteristicConfig example_service
            (example_connected (\<lambda>n. 7) [example_ccc_rsp, example_error_rsp]) =
     (Return True,
      example_service\<lparr>characteristicDeclList :=
        [example_decl\<lparr>service_handle_end := 0x0009,
                      config := Some \<lparr>cccd_handle = 0x0004, cccd_value = 0x0001\<rparr>\<rparr>,
         example_decl\<lparr>service_handle := 0x0005, service_handle_end := 0x0009,
                      handle := 0x0006, char_uuid := uuid16_t 0x2A01\<rparr>]\<rparr>, h')"
    by blast
  have ring: "attPDURing (example_connected (\<lambda>n. 7) [example_ccc_rsp, example_error_rsp])
               = [example_ccc_rsp, example_error_rsp]"
    by (simp add: example_connected_def example_handler_def)
  have b: "decl_handle_bound
     [example_decl\<lparr>service_handle_end := 0x0009,
                   config := Some \<lparr>cccd_handle = 0x0004, cccd_value = 0x0001\<rparr>\<rparr>,
      example_decl\<lparr>service_handle := 0x0005, service_handle_end := 0x0009,
                   handle := 0x0006, char_uuid := uuid16_t 0x2A01\<rparr>] 0 = 0x0006"
    by (simp add: decl_handle_bound_def)
  from cccd_attachment_interval [OF run, THEN conjunct1] run b
  show ?thesis unfolding ring by auto
qed

end
